theory Spec2Isabelle
  imports Complex_Main "HOL-Library.Word" "HOL-Library.Multiset"
begin

section \<open>Data common to the two xApp variants\<close>

type_synonym uint16 = "16 word"
type_synonym uint64 = "64 word"

text \<open>
  A C \<open>double\<close>. The finite values are idealised as reals: \<open>dadd\<close> and \<open>ddiv_size\<close> below
  neither round nor overflow to an infinity, as the C operators do. The three special
  values are kept, because the code tests \<open>isnan\<close> and compares with \<open><\<close> and \<open>>\<close>, which are
  false on a NaN. The theorems on averages therefore state an average through \<open>dadd\<close> and
  \<open>ddiv_size\<close> themselves (the sum the loop forms, divided by the count), never as a real
  number, so that they say the same of the rounding operators; a real value appears only
  in instances whose sums and quotients are exact in doubles.
\<close>

datatype double = Fin real | PInf | NInf | NaN

fun isnan :: "double \<Rightarrow> bool" where
  "isnan NaN = True"
| "isnan _ = False"

text \<open>The C operator \<open><\<close> on doubles (\<open>a > b\<close> is \<open>dless b a\<close>).\<close>

fun dless :: "double \<Rightarrow> double \<Rightarrow> bool" where
  "dless (Fin a) (Fin b) = (a < b)"
| "dless NaN _ = False"
| "dless _ NaN = False"
| "dless NInf NInf = False"
| "dless NInf _ = True"
| "dless _ NInf = False"
| "dless PInf _ = False"
| "dless _ PInf = True"

text \<open>The C operator \<open>+\<close> on doubles.\<close>

fun dadd :: "double \<Rightarrow> double \<Rightarrow> double" where
  "dadd (Fin a) (Fin b) = Fin (a + b)"
| "dadd NaN _ = NaN"
| "dadd _ NaN = NaN"
| "dadd PInf NInf = NaN"
| "dadd NInf PInf = NaN"
| "dadd PInf _ = PInf"
| "dadd _ PInf = PInf"
| "dadd NInf _ = NInf"
| "dadd _ NInf = NInf"

text \<open>\<open>x /= n\<close> for a \<open>size_t n\<close>, which C converts to double first.\<close>

fun ddiv_size :: "double \<Rightarrow> nat \<Rightarrow> double" where
  "ddiv_size (Fin a) n =
     (if n = 0 then (if a = 0 then NaN else if 0 < a then PInf else NInf)
      else Fin (a / real n))"
| "ddiv_size PInf n = PInf"
| "ddiv_size NInf n = NInf"
| "ddiv_size NaN n = NaN"

text \<open>
  A fault: a load or a store outside an array, which is undefined behaviour in C, or an
  assertion that fails. The model stops there.
\<close>

datatype fault =
    Store_past_buffer nat
  | Load_past_burst_sequence_assigned nat
  | Store_past_burst_sequence_assigned nat
  | Assert_failed

section \<open>The time-bounded variant (ue\_localization\_MA.c)\<close>

definition MAX_UE_COUNT :: nat where
  "MAX_UE_COUNT = 100"

text \<open>\<open>cell_positions\<close> and \<open>get_cell_position\<close>; \<open>None\<close> is the NULL pointer.\<close>

definition cell_positions :: "(uint16 \<times> double \<times> double) list" where
  "cell_positions =
     [(2, Fin 800, Fin 800), (3, Fin 1200, Fin 800), (4, Fin 1000, Fin 1146),
      (5, Fin 600, Fin 1146), (6, Fin 400, Fin 800), (7, Fin 600, Fin 453),
      (8, Fin 1000, Fin 453)]"

fun get_cell_position_in :: "(uint16 \<times> 'a) list \<Rightarrow> uint16 \<Rightarrow> 'a option" where
  "get_cell_position_in [] cellID = None"
| "get_cell_position_in ((c, pos) # rest) cellID =
     (if c = cellID then Some pos else get_cell_position_in rest cellID)"

definition get_cell_position :: "uint16 \<Rightarrow> (double \<times> double) option" where
  "get_cell_position cellID = get_cell_position_in cell_positions cellID"

record measurement_point_t =
  timestamp :: uint64
  ueID :: uint16
  servingCellID :: uint16
  servingSINR :: double
  neighborSINR :: "double \<times> double \<times> double"
  servingCellX :: double
  servingCellY :: double

text \<open>
  \<open>ue_adaptive_window_t\<close>. The field \<open>buffer\<close> holds the slots \<open>buffer[0 .. count-1]\<close> of
  the C array of 200 points and \<open>count\<close> is its length: the program never reads a slot
  at or beyond \<open>count\<close>.
\<close>

record ue_adaptive_window_t =
  ue_id :: uint16
  current_serving_cell :: uint16
  window_start_time :: uint64
  window_active :: bool
  buffer :: "measurement_point_t list"

abbreviation count :: "ue_adaptive_window_t \<Rightarrow> nat" where
  "count w \<equiv> length (buffer w)"

definition BUFFER_CAPACITY :: nat where
  "BUFFER_CAPACITY = 200"

text \<open>The line \<open>send_window_batch_to_python\<close> formats, as the values given to \<open>snprintf\<close>.\<close>

record batch_line =
  avg_timestamp :: uint64
  line_ue_id :: uint16
  line_serving_cell :: uint16
  avg_serving_sinr :: double
  avg_neighbor_sinr :: "double \<times> double \<times> double"
  line_x :: double
  line_y :: double

text \<open>\<open>find_ue_window\<close>: the index of the first active window of the UE.\<close>

fun find_ue_window :: "ue_adaptive_window_t list \<Rightarrow> uint16 \<Rightarrow> nat option" where
  "find_ue_window [] u = None"
| "find_ue_window (w # ws) u =
     (if ue_id w = u then Some 0 else map_option Suc (find_ue_window ws u))"

text \<open>
  \<open>create_ue_window\<close>: the list of windows is \<open>ue_windows[0 .. active_ue_count-1]\<close>; the new
  window is zeroed by \<open>memset\<close>. \<open>None\<close> is the NULL return.
\<close>

definition create_ue_window ::
  "ue_adaptive_window_t list \<Rightarrow> uint16 \<Rightarrow> (nat \<times> ue_adaptive_window_t list) option" where
  "create_ue_window ws u =
     (if length ws \<ge> MAX_UE_COUNT then None
      else Some (length ws,
        ws @ [\<lparr>ue_id = u, current_serving_cell = 0, window_start_time = 0,
                window_active = False, buffer = []\<rparr>]))"

text \<open>The three accumulation loops of \<open>send_window_batch_to_python\<close>, each left to right from 0.\<close>

definition sum_double :: "double list \<Rightarrow> double" where
  "sum_double xs = foldl dadd (Fin 0) xs"

definition sum_uint64 :: "uint64 list \<Rightarrow> uint64" where
  "sum_uint64 xs = foldl (+) 0 xs"

definition nb0 :: "measurement_point_t \<Rightarrow> double" where
  "nb0 p = fst (neighborSINR p)"

definition nb1 :: "measurement_point_t \<Rightarrow> double" where
  "nb1 p = fst (snd (neighborSINR p))"

definition nb2 :: "measurement_point_t \<Rightarrow> double" where
  "nb2 p = snd (snd (neighborSINR p))"

text \<open>\<open>send_window_batch_to_python\<close>: the lines handed to \<open>log_both\<close> (none or one).\<close>

definition send_window_batch_to_python :: "ue_adaptive_window_t \<Rightarrow> batch_line list" where
  "send_window_batch_to_python window =
     (if count window = 0 then []
      else
        let n = count window;
            buf = buffer window;
            lst = buf ! (n - 1)
        in [\<lparr>avg_timestamp = sum_uint64 (map timestamp buf) div (word_of_nat n),
             line_ue_id = ue_id window,
             line_serving_cell = current_serving_cell window,
             avg_serving_sinr = ddiv_size (sum_double (map servingSINR buf)) n,
             avg_neighbor_sinr =
               (ddiv_size (sum_double (map nb0 buf)) n,
                ddiv_size (sum_double (map nb1 buf)) n,
                ddiv_size (sum_double (map nb2 buf)) n),
             line_x = servingCellX lst,
             line_y = servingCellY lst\<rparr>])"

definition reset_window :: "ue_adaptive_window_t \<Rightarrow> uint64 \<Rightarrow> ue_adaptive_window_t" where
  "reset_window window new_start_time =
     window\<lparr>buffer := [], window_start_time := new_start_time,
            current_serving_cell := 0, window_active := False\<rparr>"

text \<open>An entry of the \<open>neighbors\<close> array of \<open>sinr_measurement_t\<close>.\<close>

record neighbor_t =
  neighCellID :: uint16
  neighSINR :: double

text \<open>
  \<open>sinr_measurement_t\<close>; \<open>neighbors\<close> holds the slots \<open>neighbors[0 .. num_neighbors-1]\<close>,
  and \<open>servingPos\<close> is \<open>None\<close> for the NULL pointer.
\<close>

record sinr_measurement_t =
  m_timestamp :: uint64
  m_ueID :: uint16
  m_servingCellID :: uint16
  m_servingSINR :: double
  servingPos :: "(double \<times> double) option"
  neighbors :: "neighbor_t list"

abbreviation num_neighbors :: "sinr_measurement_t \<Rightarrow> nat" where
  "num_neighbors m \<equiv> length (neighbors m)"

text \<open>
  The global state of the variant: the active windows, the array \<open>measurements\<close> (its slots
  \<open>0 .. num_measurements-1\<close>), and the lines written by \<open>log_both\<close> so far, oldest first.
\<close>

record ma_state =
  ue_windows :: "ue_adaptive_window_t list"
  measurements :: "sinr_measurement_t list"
  log_lines :: "batch_line list"

text \<open>
  The body of \<open>add_to_adaptive_window\<close> once the window is at hand: the new window and the
  lines logged. The store \<open>buffer[count++] = *point\<close> has no bound check in the source; at
  \<open>count = 200\<close> it is a store past the array.
\<close>

definition add_point :: "measurement_point_t \<Rightarrow> ue_adaptive_window_t \<Rightarrow>
    fault + (ue_adaptive_window_t \<times> batch_line list)" where
  "add_point point window =
     (if count window = 0 \<or> current_serving_cell window = servingCellID point then
        let w1 = (if count window = 0
                  then window\<lparr>current_serving_cell := servingCellID point,
                              window_start_time := timestamp point,
                              window_active := True\<rparr>
                  else window)
        in if count w1 \<ge> BUFFER_CAPACITY then Inl (Store_past_buffer (count w1))
           else
             let w2 = w1\<lparr>buffer := buffer w1 @ [point]\<rparr>
             in if timestamp point - window_start_time w2 \<ge> 5000
                then Inr (reset_window w2 (timestamp point), send_window_batch_to_python w2)
                else Inr (w2, [])
      else
        let out = (if count window > 0 then send_window_batch_to_python window else []);
            w1 = reset_window window (timestamp point)
        in Inr (w1\<lparr>current_serving_cell := servingCellID point, window_active := True,
                   buffer := [point]\<rparr>, out))"

definition add_to_adaptive_window :: "measurement_point_t \<Rightarrow> ma_state \<Rightarrow> fault + ma_state" where
  "add_to_adaptive_window point st =
     (case (case find_ue_window (ue_windows st) (ueID point) of
              Some i \<Rightarrow> Some (i, ue_windows st)
            | None \<Rightarrow> create_ue_window (ue_windows st) (ueID point)) of
        None \<Rightarrow> Inr st
      | Some (i, ws) \<Rightarrow>
          (case add_point point (ws ! i) of
             Inl f \<Rightarrow> Inl f
           | Inr (w', out) \<Rightarrow>
               Inr (st\<lparr>ue_windows := ws[i := w'], log_lines := log_lines st @ out\<rparr>)))"

text \<open>
  Successive calls of \<open>add_to_adaptive_window\<close>, one per point, in order; a fault ends the
  run.
\<close>

fun ingest_all :: "measurement_point_t list \<Rightarrow> ma_state \<Rightarrow> fault + ma_state" where
  "ingest_all [] st = Inr st"
| "ingest_all (p # ps) st =
     (case add_to_adaptive_window p st of Inl f \<Rightarrow> Inl f | Inr st' \<Rightarrow> ingest_all ps st')"

text \<open>The window \<open>find_ue_window\<close> returns for a UE, if any.\<close>

definition window_of :: "ma_state \<Rightarrow> uint16 \<Rightarrow> ue_adaptive_window_t option" where
  "window_of st u = map_option (\<lambda>i. ue_windows st ! i) (find_ue_window (ue_windows st) u)"

text \<open>
  The UE has no sample pending: its window is empty, or it has no window yet and
  \<open>create_ue_window\<close> has room for one.
\<close>

definition window_free :: "ma_state \<Rightarrow> uint16 \<Rightarrow> bool" where
  "window_free st u =
     (case window_of st u of
        None \<Rightarrow> length (ue_windows st) < MAX_UE_COUNT
      | Some w \<Rightarrow> buffer w = [])"

subsection \<open>Sorting the neighbours of a measurement\<close>

definition compare_neighbors_by_sinr :: "neighbor_t \<Rightarrow> neighbor_t \<Rightarrow> int" where
  "compare_neighbors_by_sinr na nb =
     (if dless (neighSINR nb) (neighSINR na) then - 1
      else if dless (neighSINR na) (neighSINR nb) then 1
      else 0)"

text \<open>
  \<open>qsort\<close> is the C library's. C fixes neither its algorithm nor the order of elements that
  compare equal; it stands here as an insertion sort that keeps equal elements in their
  order. The variant prints metrics only, never the neighbours' ids, so on metrics without
  NaN every sorting algorithm gives the same printed values. With a NaN metric the
  comparator is not an ordering and the library may return another permutation than this
  one; what is proved of the sorted order below assumes there is no NaN, and the rest
  holds of any permutation.
\<close>

fun insert_by :: "('a \<Rightarrow> 'a \<Rightarrow> int) \<Rightarrow> 'a \<Rightarrow> 'a list \<Rightarrow> 'a list" where
  "insert_by cmp x [] = [x]"
| "insert_by cmp x (y # ys) =
     (if cmp x y \<le> 0 then x # y # ys else y # insert_by cmp x ys)"

definition qsort :: "('a \<Rightarrow> 'a \<Rightarrow> int) \<Rightarrow> 'a list \<Rightarrow> 'a list" where
  "qsort cmp xs = foldr (insert_by cmp) xs []"

text \<open>
  The body of the loop of \<open>process_measurements_to_adaptive_windows\<close> up to the call of
  \<open>add_to_adaptive_window\<close>: the neighbours sorted when there are at least two, and the
  point built from the measurement with the metrics of the first three neighbours.
\<close>

definition sorted_neighbors :: "sinr_measurement_t \<Rightarrow> neighbor_t list" where
  "sorted_neighbors m =
     (if num_neighbors m > 1 then qsort compare_neighbors_by_sinr (neighbors m)
      else neighbors m)"

definition top_sinr :: "neighbor_t list \<Rightarrow> nat \<Rightarrow> double" where
  "top_sinr ns j = (if j < length ns then neighSINR (ns ! j) else Fin 0)"

definition point_of_measurement :: "sinr_measurement_t \<Rightarrow> measurement_point_t" where
  "point_of_measurement m =
     (let ns = sorted_neighbors m in
      \<lparr>timestamp = m_timestamp m, ueID = m_ueID m, servingCellID = m_servingCellID m,
       servingSINR = m_servingSINR m,
       neighborSINR = (top_sinr ns 0, top_sinr ns 1, top_sinr ns 2),
       servingCellX = (case servingPos m of Some (x, y) \<Rightarrow> x | None \<Rightarrow> Fin 0),
       servingCellY = (case servingPos m of Some (x, y) \<Rightarrow> y | None \<Rightarrow> Fin 0)\<rparr>)"

definition process_measurements_to_adaptive_windows :: "ma_state \<Rightarrow> fault + ma_state" where
  "process_measurements_to_adaptive_windows st =
     (case ingest_all (map point_of_measurement (measurements st)) st of
        Inl f \<Rightarrow> Inl f
      | Inr st' \<Rightarrow> Inr (st'\<lparr>measurements := []\<rparr>))"

subsection \<open>Collecting the measurements of an indication\<close>

text \<open>
  The decoded indication. A measurement name is kept as what the source asks of it: which
  of the two prefixes it starts with (\<open>isMeasNameContains\<close>), and what \<open>sscanf\<close> made of it,
  \<open>Some\<close> of the two numbers when both were converted. A record is a real, an integer or
  neither.
\<close>

record InfoObj =
  cellID :: uint16
  ueID_of :: uint16

datatype meas_name =
    ServingName "InfoObj option"
  | NeighName "InfoObj option"
  | OtherName

datatype meas_type_t = NAME_MEAS_TYPE meas_name | ID_MEAS_TYPE

datatype meas_record_lst_t =
    REAL_MEAS_VALUE double
  | INTEGER_MEAS_VALUE int
  | NO_VALUE_MEAS_VALUE

record kpm_ind_msg_format_1_t =
  meas_info_lst :: "meas_type_t list"
  meas_data_lst :: "meas_record_lst_t list list"

definition UINT16_MAX :: uint16 where
  "UINT16_MAX = 65535"

text \<open>
  \<open>parseServingMsg\<close> and \<open>parseNeighMsg\<close>, from the result of \<open>sscanf\<close>: both ids are \<open>-1\<close>,
  that is 65535 in a \<open>uint16_t\<close>, unless two numbers were converted.
\<close>

definition parseServingMsg :: "InfoObj option \<Rightarrow> InfoObj" where
  "parseServingMsg scanned =
     (case scanned of Some info \<Rightarrow> info | None \<Rightarrow> \<lparr>cellID = - 1, ueID_of = - 1\<rparr>)"

definition parseNeighMsg :: "InfoObj option \<Rightarrow> InfoObj" where
  "parseNeighMsg scanned =
     (case scanned of Some info \<Rightarrow> info | None \<Rightarrow> \<lparr>cellID = - 1, ueID_of = - 1\<rparr>)"

text \<open>The first loop of \<open>log_kpm_measurements\<close>, one item of the indication.\<close>

definition new_measurement ::
  "uint64 \<Rightarrow> InfoObj \<Rightarrow> double \<Rightarrow> sinr_measurement_t list \<Rightarrow> sinr_measurement_t list" where
  "new_measurement timestamp_ms info sinr ms =
     (if length ms < 100
      then ms @ [\<lparr>m_timestamp = timestamp_ms, m_ueID = ueID_of info,
                   m_servingCellID = cellID info, m_servingSINR = sinr,
                   servingPos = get_cell_position (cellID info), neighbors = []\<rparr>]
      else ms)"

definition collect_serving ::
  "uint64 \<Rightarrow> sinr_measurement_t list \<Rightarrow> meas_type_t \<times> meas_record_lst_t list \<Rightarrow>
     sinr_measurement_t list" where
  "collect_serving timestamp_ms ms item =
     (case fst item of
        NAME_MEAS_TYPE (ServingName scanned) \<Rightarrow>
          (let info = parseServingMsg scanned in
           if cellID info \<noteq> UINT16_MAX \<and> ueID_of info \<noteq> UINT16_MAX \<and> length (snd item) > 0
           then (case hd (snd item) of
                   REAL_MEAS_VALUE v \<Rightarrow> new_measurement timestamp_ms info v ms
                 | INTEGER_MEAS_VALUE k \<Rightarrow> new_measurement timestamp_ms info (Fin (real_of_int k)) ms
                 | NO_VALUE_MEAS_VALUE \<Rightarrow> ms)
           else ms)
      | _ \<Rightarrow> ms)"

text \<open>The second loop: the records of a neighbour item, taken two by two.\<close>

fun collect_pairs :: "meas_record_lst_t list \<Rightarrow> neighbor_t list \<Rightarrow> neighbor_t list" where
  "collect_pairs (REAL_MEAS_VALUE v # INTEGER_MEAS_VALUE k # rest) ns =
     collect_pairs rest
       (if length ns < 10 then ns @ [\<lparr>neighCellID = word_of_int k, neighSINR = v\<rparr>] else ns)"
| "collect_pairs (sinr # neighID # rest) ns = collect_pairs rest ns"
| "collect_pairs _ ns = ns"

text \<open>The search for the first measurement of the UE, ended by \<open>break\<close>.\<close>

fun add_neighbors_to_first ::
  "uint16 \<Rightarrow> meas_record_lst_t list \<Rightarrow> sinr_measurement_t list \<Rightarrow> sinr_measurement_t list" where
  "add_neighbors_to_first u recs [] = []"
| "add_neighbors_to_first u recs (m # ms) =
     (if m_ueID m = u then m\<lparr>neighbors := collect_pairs recs (neighbors m)\<rparr> # ms
      else m # add_neighbors_to_first u recs ms)"

definition collect_neigh ::
  "sinr_measurement_t list \<Rightarrow> meas_type_t \<times> meas_record_lst_t list \<Rightarrow> sinr_measurement_t list" where
  "collect_neigh ms item =
     (case fst item of
        NAME_MEAS_TYPE (NeighName scanned) \<Rightarrow>
          (let info = parseNeighMsg scanned in
           if cellID info \<noteq> UINT16_MAX \<and> ueID_of info \<noteq> UINT16_MAX
           then add_neighbors_to_first (ueID_of info) (snd item) ms
           else ms)
      | _ \<Rightarrow> ms)"

text \<open>
  \<open>log_kpm_measurements\<close>: the assertion, the early return when the two lists differ in
  length, the two loops and the call of \<open>process_measurements_to_adaptive_windows\<close>.
\<close>

definition log_kpm_measurements ::
  "kpm_ind_msg_format_1_t \<Rightarrow> uint64 \<Rightarrow> ma_state \<Rightarrow> fault + ma_state" where
  "log_kpm_measurements msg_frm_1 timestamp_us st =
     (if length (meas_info_lst msg_frm_1) = 0 then Inl Assert_failed
      else if length (meas_info_lst msg_frm_1) \<noteq> length (meas_data_lst msg_frm_1) then Inr st
      else
        let timestamp_ms = timestamp_us div 1000;
            items = zip (meas_info_lst msg_frm_1) (meas_data_lst msg_frm_1);
            ms1 = foldl (collect_serving timestamp_ms) (measurements st) items;
            ms2 = foldl collect_neigh ms1 items
        in process_measurements_to_adaptive_windows (st\<lparr>measurements := ms2\<rparr>))"

section \<open>The sequence-synchronized variant (ue\_localization\_MA\_v2.c)\<close>

definition WINDOW_SIZE :: nat where
  "WINDOW_SIZE = 1"

definition MIN_NEIGHBORS_REQUIRED :: nat where
  "MIN_NEIGHBORS_REQUIRED = 3"

definition TOTAL_UES :: nat where
  "TOTAL_UES = 28"

definition cell_positions_v2 :: "(uint16 \<times> int \<times> int) list" where
  "cell_positions_v2 =
     [(2, 800, 800), (3, 1300, 800), (4, 1050, 1233), (5, 550, 1233),
      (6, 300, 800), (7, 550, 366), (8, 1050, 366)]"

definition get_cell_position_v2 :: "uint16 \<Rightarrow> (int \<times> int) option" where
  "get_cell_position_v2 cell = get_cell_position_in cell_positions_v2 cell"

subsection \<open>The burst clock\<close>

text \<open>
  The four globals of \<open>assign_sequence_timestamp\<close>. \<open>burst_sequence_assigned\<close> is declared
  with \<open>TOTAL_UES\<close> slots (indices 0 to 27) and \<open>ue_sequence_timestamps\<close> with
  \<open>TOTAL_UES + 1\<close>.
\<close>

record burst_state =
  current_sequence_timestamp :: uint64
  current_burst_ue_count :: int
  burst_sequence_assigned :: "bool list"
  ue_sequence_timestamps :: "uint64 list"

definition initial_burst_state :: burst_state where
  "initial_burst_state =
     \<lparr>current_sequence_timestamp = 0, current_burst_ue_count = 0,
      burst_sequence_assigned = replicate TOTAL_UES False,
      ue_sequence_timestamps = replicate (TOTAL_UES + 1) 0\<rparr>"

text \<open>
  The loop \<open>for (int i = 0; i <= TOTAL_UES; i++) burst_sequence_assigned[i] = false\<close>. Its
  last round stores at index \<open>TOTAL_UES\<close>, one past the array.
\<close>

function clear_assigned :: "nat \<Rightarrow> bool list \<Rightarrow> fault + bool list" where
  "clear_assigned i flags =
     (if i \<le> TOTAL_UES
      then (if i < TOTAL_UES then clear_assigned (i + 1) (flags[i := False])
            else Inl (Store_past_burst_sequence_assigned i))
      else Inr flags)"
  by pat_completeness auto
termination
  by (relation "measure (\<lambda>(i, flags). Suc TOTAL_UES - i)") auto

text \<open>\<open>assign_sequence_timestamp\<close>: the value returned and the new globals, or the fault.\<close>

definition assign_sequence_timestamp :: "uint16 \<Rightarrow> burst_state \<Rightarrow> fault + (uint64 \<times> burst_state)" where
  "assign_sequence_timestamp ue bs =
     (let u = unat ue in
      if u \<ge> TOTAL_UES then Inl (Load_past_burst_sequence_assigned u)
      else if burst_sequence_assigned bs ! u then Inr (ue_sequence_timestamps bs ! u, bs)
      else
        let bs1 = bs\<lparr>ue_sequence_timestamps :=
                        (ue_sequence_timestamps bs)[u := current_sequence_timestamp bs],
                      burst_sequence_assigned := (burst_sequence_assigned bs)[u := True],
                      current_burst_ue_count := current_burst_ue_count bs + 1\<rparr>
        in if current_burst_ue_count bs1 \<ge> int TOTAL_UES
           then (case clear_assigned 0 (burst_sequence_assigned bs1) of
                   Inl f \<Rightarrow> Inl f
                 | Inr flags \<Rightarrow>
                     Inr (ue_sequence_timestamps bs1 ! u,
                          bs1\<lparr>current_sequence_timestamp := current_sequence_timestamp bs1 + 1,
                              current_burst_ue_count := 0,
                              burst_sequence_assigned := flags\<rparr>))
           else Inr (ue_sequence_timestamps bs1 ! u, bs1))"

subsection \<open>The buffers of the UEs\<close>

text \<open>
  An entry of \<open>measurement_history\<close>; \<open>history_neighbors\<close> holds the pairs
  \<open>(neighbor_ids[i], neighbor_sinrs[i])\<close> for \<open>i < active_neighbor_count\<close>.
\<close>

record history_entry_t =
  serving_sinr :: double
  history_neighbors :: "(uint16 \<times> double) list"
  history_timestamp :: uint64

abbreviation active_neighbor_count :: "history_entry_t \<Rightarrow> nat" where
  "active_neighbor_count h \<equiv> length (history_neighbors h)"

text \<open>
  \<open>ue_buffer_t\<close>, the fields the program uses. \<open>WINDOW_SIZE\<close> is 1, so \<open>measurement_history\<close>
  has one entry and every index into it, \<open>history_idx\<close> or
  \<open>(history_idx - 1 + WINDOW_SIZE) % WINDOW_SIZE\<close>, is 0.
\<close>

record ue_buffer_t =
  b_ueID :: uint16
  b_servingCellID :: uint16
  measurement_history :: history_entry_t
  history_idx :: nat
  history_count :: nat
  last_timestamp :: uint64

text \<open>\<open>get_or_create_ue_buffer\<close>: the index of the buffer and the buffers, or NULL.\<close>

fun find_ue_buffer :: "ue_buffer_t list \<Rightarrow> uint16 \<Rightarrow> nat option" where
  "find_ue_buffer [] u = None"
| "find_ue_buffer (b # bs) u =
     (if b_ueID b = u then Some 0 else map_option Suc (find_ue_buffer bs u))"

definition zero_ue_buffer :: "uint16 \<Rightarrow> ue_buffer_t" where
  "zero_ue_buffer u =
     \<lparr>b_ueID = u, b_servingCellID = 0,
      measurement_history = \<lparr>serving_sinr = Fin 0, history_neighbors = [], history_timestamp = 0\<rparr>,
      history_idx = 0, history_count = 0, last_timestamp = 0\<rparr>"

definition get_or_create_ue_buffer ::
  "ue_buffer_t list \<Rightarrow> uint16 \<Rightarrow> (nat \<times> ue_buffer_t list) option" where
  "get_or_create_ue_buffer bufs u =
     (case find_ue_buffer bufs u of
        Some i \<Rightarrow> Some (i, bufs)
      | None \<Rightarrow>
          if length bufs < 28 then Some (length bufs, bufs @ [zero_ue_buffer u]) else None)"

definition add_serving_sample :: "ue_buffer_t \<Rightarrow> uint16 \<Rightarrow> double \<Rightarrow> uint64 \<Rightarrow> ue_buffer_t" where
  "add_serving_sample ue_buf cell sinr ts =
     ue_buf\<lparr>b_servingCellID := cell, last_timestamp := ts,
            measurement_history :=
              \<lparr>serving_sinr = sinr, history_neighbors = [], history_timestamp = 0\<rparr>,
            history_idx := (history_idx ue_buf + 1) mod WINDOW_SIZE,
            history_count := (if history_count ue_buf < WINDOW_SIZE
                              then history_count ue_buf + 1 else history_count ue_buf)\<rparr>"

definition add_neighbor_sample :: "ue_buffer_t \<Rightarrow> uint16 \<Rightarrow> double \<Rightarrow> ue_buffer_t" where
  "add_neighbor_sample ue_buf neighCell sinr =
     (if neighCell = b_servingCellID ue_buf then ue_buf
      else if active_neighbor_count (measurement_history ue_buf) < 10
      then ue_buf\<lparr>measurement_history :=
             (measurement_history ue_buf)\<lparr>history_neighbors :=
                history_neighbors (measurement_history ue_buf) @ [(neighCell, sinr)]\<rparr>\<rparr>
      else ue_buf)"

subsection \<open>Ranking and sending\<close>

record neighbor_data_t =
  nd_cellID :: uint16
  nd_sinr :: double
  nd_x :: int
  nd_y :: int

text \<open>The line of \<open>check_and_send_ue_data\<close>, as the values given to \<open>snprintf\<close>.\<close>

record sequence_line =
  sequence_timestamp :: uint64
  sl_ueID :: uint16
  sl_servingCellID :: uint16
  sl_serving_x :: int
  sl_serving_y :: int
  sl_serving_sinr :: double
  top3 :: "neighbor_data_t list"

text \<open>
  The first loop of \<open>check_and_send_ue_data\<close>, over the neighbours of the history entry
  while fewer than 10 are kept: a neighbour that is the serving cell, has a NaN metric or
  has id 0 is passed over.
\<close>

fun collect_valid ::
  "uint16 \<Rightarrow> (uint16 \<times> double) list \<Rightarrow> neighbor_data_t list \<Rightarrow> neighbor_data_t list" where
  "collect_valid serving [] acc = acc"
| "collect_valid serving ((neighID, sinr) # rest) acc =
     (if length acc < 10
      then (if neighID = serving \<or> isnan sinr \<or> neighID = 0
            then collect_valid serving rest acc
            else collect_valid serving rest
                   (acc @ [\<lparr>nd_cellID = neighID, nd_sinr = sinr,
                            nd_x = (case get_cell_position_v2 neighID of Some (x, y) \<Rightarrow> x | None \<Rightarrow> 0),
                            nd_y = (case get_cell_position_v2 neighID of Some (x, y) \<Rightarrow> y | None \<Rightarrow> 0)\<rparr>]))
      else acc)"

text \<open>
  The two nested loops that sort \<open>neighbors[0 .. neighbor_count-1]\<close> in place: for each
  \<open>i\<close>, each later \<open>j\<close> whose metric is greater is swapped into place \<open>i\<close>.
\<close>

function sort_inner :: "nat \<Rightarrow> nat \<Rightarrow> nat \<Rightarrow> neighbor_data_t list \<Rightarrow> neighbor_data_t list" where
  "sort_inner n i j a =
     (if j < n
      then sort_inner n i (j + 1)
             (if dless (nd_sinr (a ! i)) (nd_sinr (a ! j)) then a[i := a ! j, j := a ! i] else a)
      else a)"
  by pat_completeness auto
termination
  by (relation "measure (\<lambda>(n, i, j, a). n - j)") auto

function sort_outer :: "nat \<Rightarrow> nat \<Rightarrow> neighbor_data_t list \<Rightarrow> neighbor_data_t list" where
  "sort_outer n i a =
     (if i + 1 < n then sort_outer n (i + 1) (sort_inner n i (i + 1) a) else a)"
  by pat_completeness auto
termination
  by (relation "measure (\<lambda>(n, i, a). n - i)") auto

definition sort_neighbors :: "neighbor_data_t list \<Rightarrow> neighbor_data_t list" where
  "sort_neighbors a = sort_outer (length a) 0 a"

definition zero_neighbor :: neighbor_data_t where
  "zero_neighbor = \<lparr>nd_cellID = 0, nd_sinr = Fin 0, nd_x = 0, nd_y = 0\<rparr>"

text \<open>The three \<open>top3\<close> arrays, zero but for the first \<open>valid_count\<close> entries.\<close>

definition select_top3 :: "neighbor_data_t list \<Rightarrow> neighbor_data_t list" where
  "select_top3 a =
     (let valid_count = (if length a > 3 then 3 else length a)
      in map (\<lambda>i. if i < valid_count then a ! i else zero_neighbor) [0, 1, 2])"

text \<open>
  \<open>check_and_send_ue_data\<close>: the line written to the file and the socket, or \<open>None\<close> when
  the function returns before writing.
\<close>

definition check_and_send_ue_data :: "ue_buffer_t \<Rightarrow> uint64 \<Rightarrow> sequence_line option" where
  "check_and_send_ue_data ue_buf seq =
     (let h = measurement_history ue_buf;
          serving_sinr_ma = serving_sinr h
      in if isnan serving_sinr_ma then None
         else
           let ranked = sort_neighbors (collect_valid (b_servingCellID ue_buf) (history_neighbors h) [])
           in if length ranked < MIN_NEIGHBORS_REQUIRED then None
              else
                let serving_pos = get_cell_position_v2 (b_servingCellID ue_buf)
                in Some \<lparr>sequence_timestamp = seq, sl_ueID = b_ueID ue_buf,
                          sl_servingCellID = b_servingCellID ue_buf,
                          sl_serving_x = (case serving_pos of Some (x, y) \<Rightarrow> x | None \<Rightarrow> 0),
                          sl_serving_y = (case serving_pos of Some (x, y) \<Rightarrow> y | None \<Rightarrow> 0),
                          sl_serving_sinr = serving_sinr_ma,
                          top3 = select_top3 ranked\<rparr>)"

subsection \<open>An indication\<close>

record v2_state =
  ue_buffers :: "ue_buffer_t list"
  burst :: burst_state
  sent_lines :: "sequence_line list"

definition initial_v2_state :: v2_state where
  "initial_v2_state = \<lparr>ue_buffers = [], burst = initial_burst_state, sent_lines = []\<rparr>"

text \<open>The first loop of \<open>log_kpm_measurements\<close>, one item.\<close>

definition serving_to_buffer ::
  "uint64 \<Rightarrow> InfoObj \<Rightarrow> double \<Rightarrow> ue_buffer_t list \<Rightarrow> ue_buffer_t list" where
  "serving_to_buffer ts info sinr bufs =
     (case get_or_create_ue_buffer bufs (ueID_of info) of
        Some (i, bufs') \<Rightarrow> bufs'[i := add_serving_sample (bufs' ! i) (cellID info) sinr ts]
      | None \<Rightarrow> bufs)"

definition collect_serving_v2 ::
  "uint64 \<Rightarrow> ue_buffer_t list \<Rightarrow> meas_type_t \<times> meas_record_lst_t list \<Rightarrow> ue_buffer_t list" where
  "collect_serving_v2 ts bufs item =
     (case fst item of
        NAME_MEAS_TYPE (ServingName scanned) \<Rightarrow>
          (let info = parseServingMsg scanned in
           if cellID info \<noteq> UINT16_MAX \<and> ueID_of info \<noteq> UINT16_MAX \<and> length (snd item) > 0
           then (case hd (snd item) of
                   REAL_MEAS_VALUE v \<Rightarrow> serving_to_buffer ts info v bufs
                 | INTEGER_MEAS_VALUE k \<Rightarrow> serving_to_buffer ts info (Fin (real_of_int k)) bufs
                 | NO_VALUE_MEAS_VALUE \<Rightarrow> bufs)
           else bufs)
      | _ \<Rightarrow> bufs)"

text \<open>The second loop: the records of a neighbour item, two by two, into the UE's buffer.\<close>

fun neighbor_pairs :: "meas_record_lst_t list \<Rightarrow> ue_buffer_t \<Rightarrow> ue_buffer_t" where
  "neighbor_pairs (REAL_MEAS_VALUE v # INTEGER_MEAS_VALUE k # rest) ue_buf =
     neighbor_pairs rest (add_neighbor_sample ue_buf (word_of_int k) v)"
| "neighbor_pairs (sinr # neighID # rest) ue_buf = neighbor_pairs rest ue_buf"
| "neighbor_pairs _ ue_buf = ue_buf"

definition collect_neigh_v2 ::
  "ue_buffer_t list \<Rightarrow> meas_type_t \<times> meas_record_lst_t list \<Rightarrow> ue_buffer_t list" where
  "collect_neigh_v2 bufs item =
     (case fst item of
        NAME_MEAS_TYPE (NeighName scanned) \<Rightarrow>
          (let info = parseNeighMsg scanned in
           if cellID info \<noteq> UINT16_MAX \<and> ueID_of info \<noteq> UINT16_MAX
           then (case get_or_create_ue_buffer bufs (ueID_of info) of
                   Some (i, bufs') \<Rightarrow> bufs'[i := neighbor_pairs (snd item) (bufs' ! i)]
                 | None \<Rightarrow> bufs)
           else bufs)
      | _ \<Rightarrow> bufs)"

text \<open>
  The third loop, over the buffers in order: a UE whose \<open>history_count\<close> is positive gets
  its sequence number and is sent.
\<close>

fun send_all :: "ue_buffer_t list \<Rightarrow> burst_state \<Rightarrow> sequence_line list \<Rightarrow>
    fault + (burst_state \<times> sequence_line list)" where
  "send_all [] bs out = Inr (bs, out)"
| "send_all (ue_buf # rest) bs out =
     (if history_count ue_buf > 0
      then (case assign_sequence_timestamp (b_ueID ue_buf) bs of
              Inl f \<Rightarrow> Inl f
            | Inr (seq_ts, bs') \<Rightarrow>
                send_all rest bs'
                  (case check_and_send_ue_data ue_buf seq_ts of
                     Some line \<Rightarrow> out @ [line]
                   | None \<Rightarrow> out))
      else send_all rest bs out)"

definition log_kpm_measurements_v2 ::
  "kpm_ind_msg_format_1_t \<Rightarrow> uint64 \<Rightarrow> v2_state \<Rightarrow> fault + v2_state" where
  "log_kpm_measurements_v2 msg_frm_1 simulation_timestamp st =
     (if length (meas_info_lst msg_frm_1) = 0 then Inl Assert_failed
      else if length (meas_info_lst msg_frm_1) \<noteq> length (meas_data_lst msg_frm_1) then Inr st
      else
        let items = zip (meas_info_lst msg_frm_1) (meas_data_lst msg_frm_1);
            bufs1 = foldl (collect_serving_v2 simulation_timestamp) (ue_buffers st) items;
            bufs2 = foldl collect_neigh_v2 bufs1 items
        in case send_all bufs2 (burst st) (sent_lines st) of
             Inl f \<Rightarrow> Inl f
           | Inr (bs, out) \<Rightarrow> Inr \<lparr>ue_buffers = bufs2, burst = bs, sent_lines = out\<rparr>)"

text \<open>Successive indications.\<close>

fun run_v2 :: "(kpm_ind_msg_format_1_t \<times> uint64) list \<Rightarrow> v2_state \<Rightarrow> fault + v2_state" where
  "run_v2 [] st = Inr st"
| "run_v2 ((msg, ts) # rest) st =
     (case log_kpm_measurements_v2 msg ts st of Inl f \<Rightarrow> Inl f | Inr st' \<Rightarrow> run_v2 rest st')"

section \<open>Data of the examples and the specification's own words\<close>

text \<open>Concrete data for the examples below.\<close>

definition example_point :: "uint64 \<Rightarrow> uint16 \<Rightarrow> uint16 \<Rightarrow> double \<Rightarrow> measurement_point_t" where
  "example_point t u c v =
     \<lparr>timestamp = t, ueID = u, servingCellID = c, servingSINR = v,
      neighborSINR = (Fin 0, Fin 0, Fin 0), servingCellX = Fin 0, servingCellY = Fin 0\<rparr>"

definition initial_ma_state :: ma_state where
  "initial_ma_state = \<lparr>ue_windows = [], measurements = [], log_lines = []\<rparr>"

definition example_state :: ma_state where
  "example_state =
     \<lparr>ue_windows = [\<lparr>ue_id = 1, current_serving_cell = 2, window_start_time = 0,
        window_active = True,
        buffer = [example_point 0 1 2 (Fin 10), example_point 100 1 2 (Fin 20)]\<rparr>],
      measurements = [], log_lines = []\<rparr>"

definition example_samples :: "measurement_point_t list" where
  "example_samples =
     [example_point 0 1 2 (Fin 1), example_point 1000 1 2 (Fin 2),
      example_point 2000 1 2 (Fin 3), example_point 3000 1 2 (Fin 4),
      example_point 4000 1 2 (Fin 5), example_point 5000 1 2 (Fin 6)]"

text \<open>
  A measurement item whose name gave the sentinel id 65535 for the cell or for the UE: the
  test both loops of \<open>log_kpm_measurements\<close> make before they use an item.
\<close>

definition unknown_id :: "meas_type_t \<Rightarrow> bool" where
  "unknown_id mt =
     (case mt of
        NAME_MEAS_TYPE (ServingName scanned) \<Rightarrow>
          cellID (parseServingMsg scanned) = UINT16_MAX \<or> ueID_of (parseServingMsg scanned) = UINT16_MAX
      | NAME_MEAS_TYPE (NeighName scanned) \<Rightarrow>
          cellID (parseNeighMsg scanned) = UINT16_MAX \<or> ueID_of (parseNeighMsg scanned) = UINT16_MAX
      | _ \<Rightarrow> False)"

text \<open>An indication given as the list of its items, each a name with its records.\<close>

definition msg_of :: "(meas_type_t \<times> meas_record_lst_t list) list \<Rightarrow> kpm_ind_msg_format_1_t" where
  "msg_of items = \<lparr>meas_info_lst = map fst items, meas_data_lst = map snd items\<rparr>"

definition serving_item :: "uint16 \<Rightarrow> uint16 \<Rightarrow> double \<Rightarrow> meas_type_t \<times> meas_record_lst_t list" where
  "serving_item c u v =
     (NAME_MEAS_TYPE (ServingName (Some \<lparr>cellID = c, ueID_of = u\<rparr>)), [REAL_MEAS_VALUE v])"

definition neigh_item :: "uint16 \<Rightarrow> uint16 \<Rightarrow> (double \<times> int) list \<Rightarrow> meas_type_t \<times> meas_record_lst_t list" where
  "neigh_item c u ns =
     (NAME_MEAS_TYPE (NeighName (Some \<lparr>cellID = c, ueID_of = u\<rparr>)),
      concat (map (\<lambda>(v, k). [REAL_MEAS_VALUE v, INTEGER_MEAS_VALUE k]) ns))"

text \<open>
  The test of the first loop of \<open>check_and_send_ue_data\<close>, negated: the neighbour is not
  the serving cell, its metric is not NaN and its id is not 0. \<open>neighbor_data\<close> is the
  entry the loop stores for it.
\<close>

definition valid_neighbor :: "uint16 \<Rightarrow> uint16 \<times> double \<Rightarrow> bool" where
  "valid_neighbor serving n = (fst n \<noteq> serving \<and> \<not> isnan (snd n) \<and> fst n \<noteq> 0)"

definition neighbor_data :: "uint16 \<times> double \<Rightarrow> neighbor_data_t" where
  "neighbor_data n =
     \<lparr>nd_cellID = fst n, nd_sinr = snd n,
      nd_x = (case get_cell_position_v2 (fst n) of Some (x, y) \<Rightarrow> x | None \<Rightarrow> 0),
      nd_y = (case get_cell_position_v2 (fst n) of Some (x, y) \<Rightarrow> y | None \<Rightarrow> 0)\<rparr>"

text \<open>The order of a ranking: the metric of \<open>x\<close> is not less than the metric of \<open>y\<close>.\<close>

definition not_below :: "neighbor_data_t \<Rightarrow> neighbor_data_t \<Rightarrow> bool" where
  "not_below x y = (\<not> dless (nd_sinr x) (nd_sinr y))"

text \<open>A buffer of UE 1 that holds one serving sample and the given neighbours.\<close>

definition example_buffer :: "uint16 \<Rightarrow> (uint16 \<times> double) list \<Rightarrow> ue_buffer_t" where
  "example_buffer serving ns =
     \<lparr>b_ueID = 1, b_servingCellID = serving,
      measurement_history = \<lparr>serving_sinr = Fin 20, history_neighbors = ns, history_timestamp = 0\<rparr>,
      history_idx = 0, history_count = 1, last_timestamp = 0\<rparr>"

text \<open>An item whose name did not scan: \<open>sscanf\<close> converted nothing.\<close>

definition unknown_item :: "meas_type_t \<times> meas_record_lst_t list" where
  "unknown_item = (NAME_MEAS_TYPE (ServingName None), [REAL_MEAS_VALUE (Fin 3)])"

text \<open>Successive calls of \<open>assign_sequence_timestamp\<close>, with the values returned.\<close>

fun assign_all :: "uint16 list \<Rightarrow> burst_state \<Rightarrow> fault + (uint64 list \<times> burst_state)" where
  "assign_all [] bs = Inr ([], bs)"
| "assign_all (ue # rest) bs =
     (case assign_sequence_timestamp ue bs of
        Inl f \<Rightarrow> Inl f
      | Inr (seq_ts, bs') \<Rightarrow>
          (case assign_all rest bs' of
             Inl f \<Rightarrow> Inl f
           | Inr (seqs, bs'') \<Rightarrow> Inr (seq_ts # seqs, bs'')))"

text \<open>Twenty-seven distinct UE ids, all within \<open>burst_sequence_assigned\<close>.\<close>

definition burst_ids :: "uint16 list" where
  "burst_ids = [0, 1, 2, 3, 4, 5, 6, 7, 8, 9, 10, 11, 12, 13, 14, 15, 16, 17, 18, 19, 20, 21, 22,
     23, 24, 25, 26]"

text \<open>
  A serving item that names the UE \<open>e\<close>, whatever its cell id and records.
\<close>

definition serving_for :: "uint16 \<Rightarrow> meas_type_t \<Rightarrow> bool" where
  "serving_for e mt =
     (case mt of
        NAME_MEAS_TYPE (ServingName scanned) \<Rightarrow> ueID_of (parseServingMsg scanned) = e
      | _ \<Rightarrow> False)"

text \<open>
  No buffer of the UE \<open>e\<close> has a measurement in its history.
\<close>

definition no_history :: "uint16 \<Rightarrow> ue_buffer_t list \<Rightarrow> bool" where
  "no_history e bufs = (\<forall>b \<in> set bufs. b_ueID b = e \<longrightarrow> history_count b = 0)"

text \<open>
  The UE \<open>e\<close> has no measurement in a history, no line sent, and its flag in
  \<open>burst_sequence_assigned\<close> (when its id is within the array) is not set.
\<close>

definition never_served :: "uint16 \<Rightarrow> v2_state \<Rightarrow> bool" where
  "never_served e st =
     (no_history e (ue_buffers st)
      \<and> (\<forall>l \<in> set (sent_lines st). sl_ueID l \<noteq> e)
      \<and> (unat e < length (burst_sequence_assigned (burst st))
           \<longrightarrow> \<not> burst_sequence_assigned (burst st) ! unat e))"

text \<open>
  The flag of the UE \<open>e\<close>, when its id is within the array, is not set.
\<close>

definition unassigned :: "uint16 \<Rightarrow> burst_state \<Rightarrow> bool" where
  "unassigned e bs =
     (unat e < length (burst_sequence_assigned bs) \<longrightarrow> \<not> burst_sequence_assigned bs ! unat e)"

text \<open>
  Two indications in which UE 7 sends neighbour items only, and UE 1 a serving item.
\<close>

definition neighbours_only :: "(kpm_ind_msg_format_1_t \<times> uint64) list" where
  "neighbours_only =
     [(msg_of [serving_item 2 1 (Fin 9), neigh_item 2 7 [(Fin 5, 3), (Fin 4, 4), (Fin 3, 5)]], 0),
      (msg_of [neigh_item 2 7 [(Fin 6, 3), (Fin 4, 4), (Fin 2, 5)]], 100000)]"

text \<open>
  The comparison of \<open>compare_neighbors_by_sinr\<close>, on the metrics themselves.
\<close>

definition compare_double_desc :: "double \<Rightarrow> double \<Rightarrow> int" where
  "compare_double_desc a b = (if dless b a then - 1 else if dless a b then 1 else 0)"

text \<open>
  The arithmetic mean as the source computes it: the sum from 0, left to right, divided by
  the count.
\<close>

definition mean_double :: "double list \<Rightarrow> double" where
  "mean_double vs = ddiv_size (sum_double vs) (length vs)"

text \<open>
  In the specification's words: the distinct neighbour links seen during a window, the
  mean of a link's metric over the samples of the window that report it, and the three
  largest of these per-link means, 0.0 where there are fewer than three.
\<close>

definition spec_links :: "sinr_measurement_t list \<Rightarrow> uint16 list" where
  "spec_links ms = remdups (concat (map (\<lambda>m. map neighCellID (neighbors m)) ms))"

definition spec_link_mean :: "sinr_measurement_t list \<Rightarrow> uint16 \<Rightarrow> double" where
  "spec_link_mean ms l =
     mean_double (concat (map (\<lambda>m. map neighSINR (filter (\<lambda>n. neighCellID n = l) (neighbors m))) ms))"

definition pad3 :: "double list \<Rightarrow> double \<times> double \<times> double" where
  "pad3 vs = (if 0 < length vs then vs ! 0 else Fin 0,
              if 1 < length vs then vs ! 1 else Fin 0,
              if 2 < length vs then vs ! 2 else Fin 0)"

definition spec_per_link_ranked :: "sinr_measurement_t list \<Rightarrow> double \<times> double \<times> double" where
  "spec_per_link_ranked ms =
     pad3 (qsort compare_double_desc (map (spec_link_mean ms) (spec_links ms)))"

text \<open>
  Two indications for UE 1 under serving cell 2, 5000 ms apart, in which the metrics of
  the neighbours 5 and 6 cross; and their two measurements.
\<close>

definition crossing_first :: kpm_ind_msg_format_1_t where
  "crossing_first = msg_of [serving_item 2 1 (Fin 7), neigh_item 2 1 [(Fin 10, 5), (Fin 2, 6)]]"

definition crossing_second :: kpm_ind_msg_format_1_t where
  "crossing_second = msg_of [serving_item 2 1 (Fin 7), neigh_item 2 1 [(Fin 2, 5), (Fin 10, 6)]]"

definition crossing_samples :: "sinr_measurement_t list" where
  "crossing_samples =
     [\<lparr>m_timestamp = 0, m_ueID = 1, m_servingCellID = 2, m_servingSINR = Fin 7,
        servingPos = Some (Fin 800, Fin 800),
        neighbors = [\<lparr>neighCellID = 5, neighSINR = Fin 10\<rparr>, \<lparr>neighCellID = 6, neighSINR = Fin 2\<rparr>]\<rparr>,
      \<lparr>m_timestamp = 5000, m_ueID = 1, m_servingCellID = 2, m_servingSINR = Fin 7,
        servingPos = Some (Fin 800, Fin 800),
        neighbors = [\<lparr>neighCellID = 5, neighSINR = Fin 2\<rparr>, \<lparr>neighCellID = 6, neighSINR = Fin 10\<rparr>]\<rparr>]"

text \<open>
  The order \<open>compare_neighbors_by_sinr\<close> asks for: the metric of \<open>x\<close> is not less than the
  metric of \<open>y\<close>.
\<close>

definition sinr_not_below :: "neighbor_t \<Rightarrow> neighbor_t \<Rightarrow> bool" where
  "sinr_not_below x y = (\<not> dless (neighSINR x) (neighSINR y))"

text \<open>
  The metric \<open>process_measurements_to_adaptive_windows\<close> puts in slot \<open>j\<close> of the point of
  a measurement: that of its \<open>j\<close>-th neighbour after the sort, or 0.0.
\<close>

definition ranked_sinr :: "nat \<Rightarrow> sinr_measurement_t \<Rightarrow> double" where
  "ranked_sinr j m = top_sinr (sorted_neighbors m) j"

section \<open>Properties of the time-bounded variant\<close>

lemma find_ue_window_Some:
  "find_ue_window ws u = Some i \<Longrightarrow> i < length ws \<and> ue_id (ws ! i) = u"
  by (induction ws arbitrary: i) (auto split: if_splits)

lemma find_ue_window_cong:
  "map ue_id ws = map ue_id ws' \<Longrightarrow> find_ue_window ws u = find_ue_window ws' u"
proof (induction ws arbitrary: ws')
  case Nil
  then show ?case by simp
next
  case (Cons a ws)
  then obtain b vs where "ws' = b # vs" by (cases ws') auto
  with Cons show ?case by auto
qed

lemma find_ue_window_update:
  assumes "i < length ws" and "ue_id w' = ue_id (ws ! i)"
  shows "find_ue_window (ws[i := w']) u = find_ue_window ws u"
proof (rule find_ue_window_cong)
  show "map ue_id (ws[i := w']) = map ue_id ws"
    using assms by (simp add: map_update list_update_same_conv)
qed

lemma find_ue_window_append_new:
  "find_ue_window ws u = None \<Longrightarrow> ue_id w = u \<Longrightarrow> find_ue_window (ws @ [w]) u = Some (length ws)"
  by (induction ws) (auto split: if_splits)

lemma find_ue_window_append_other:
  "ue_id w \<noteq> u \<Longrightarrow> find_ue_window (ws @ [w]) u = find_ue_window ws u"
  by (induction ws) (auto split: if_splits)

lemma add_point_ue_id:
  "add_point p w = Inr (w', out) \<Longrightarrow> ue_id w' = ue_id w"
  by (auto simp: add_point_def reset_window_def Let_def split: if_splits)

text \<open>The effect of one call on the windows, by the case of the lookup.\<close>

lemma add_found:
  assumes "find_ue_window (ue_windows st) (ueID p) = Some i"
    and "add_point p (ue_windows st ! i) = Inr (w', out)"
  shows "add_to_adaptive_window p st =
           Inr (st\<lparr>ue_windows := (ue_windows st)[i := w'], log_lines := log_lines st @ out\<rparr>)"
  using assms by (simp add: add_to_adaptive_window_def)

lemma add_found_fault:
  assumes "find_ue_window (ue_windows st) (ueID p) = Some i"
    and "add_point p (ue_windows st ! i) = Inl f"
  shows "add_to_adaptive_window p st = Inl f"
  using assms by (simp add: add_to_adaptive_window_def)

lemma window_of_after_add:
  assumes "window_of st (ueID p) = Some w" and "add_point p w = Inr (w', out)"
  shows "\<exists>st'. add_to_adaptive_window p st = Inr st' \<and> window_of st' (ueID p) = Some w'
            \<and> log_lines st' = log_lines st @ out"
proof -
  from assms(1) obtain i where i: "find_ue_window (ue_windows st) (ueID p) = Some i"
    and w: "w = ue_windows st ! i"
    by (auto simp: window_of_def)
  from i have len: "i < length (ue_windows st)" using find_ue_window_Some by blast
  have id: "ue_id w' = ue_id (ue_windows st ! i)"
    using add_point_ue_id assms(2) w by blast
  have "find_ue_window ((ue_windows st)[i := w']) (ueID p) = Some i"
    using find_ue_window_update [OF len id] i by simp
  then show ?thesis
    using add_found [OF i] assms(2) w len by (simp add: window_of_def)
qed

lemma window_of_after_fault:
  assumes "window_of st (ueID p) = Some w" and "add_point p w = Inl f"
  shows "add_to_adaptive_window p st = Inl f"
  using assms add_found_fault by (auto simp: window_of_def)

text \<open>The cases of \<open>add_point\<close>.\<close>

lemma add_point_seed:
  "buffer w = [] \<Longrightarrow>
   add_point p w = Inr (w\<lparr>current_serving_cell := servingCellID p,
       window_start_time := timestamp p, window_active := True, buffer := [p]\<rparr>, [])"
  by (simp add: add_point_def BUFFER_CAPACITY_def)

lemma add_point_accumulate:
  "buffer w \<noteq> [] \<Longrightarrow> current_serving_cell w = servingCellID p \<Longrightarrow> count w < 200 \<Longrightarrow>
   \<not> 5000 \<le> timestamp p - window_start_time w \<Longrightarrow>
   add_point p w = Inr (w\<lparr>buffer := buffer w @ [p]\<rparr>, [])"
  by (simp add: add_point_def BUFFER_CAPACITY_def)

lemma add_point_close:
  "buffer w \<noteq> [] \<Longrightarrow> current_serving_cell w = servingCellID p \<Longrightarrow> count w < 200 \<Longrightarrow>
   5000 \<le> timestamp p - window_start_time w \<Longrightarrow>
   add_point p w = Inr (reset_window (w\<lparr>buffer := buffer w @ [p]\<rparr>) (timestamp p),
                        send_window_batch_to_python (w\<lparr>buffer := buffer w @ [p]\<rparr>))"
  by (simp add: add_point_def BUFFER_CAPACITY_def Let_def)

lemma add_point_overflow:
  "current_serving_cell w = servingCellID p \<Longrightarrow> 200 \<le> count w \<Longrightarrow>
   add_point p w = Inl (Store_past_buffer (count w))"
  by (auto simp add: add_point_def BUFFER_CAPACITY_def)

lemma window_of_None: "window_of st u = None \<longleftrightarrow> find_ue_window (ue_windows st) u = None"
  by (simp add: window_of_def)

lemma add_first:
  assumes "window_free st (ueID p)"
  shows "\<exists>st' w. add_to_adaptive_window p st = Inr st' \<and> window_of st' (ueID p) = Some w
      \<and> buffer w = [p] \<and> current_serving_cell w = servingCellID p
      \<and> window_start_time w = timestamp p \<and> ue_id w = ueID p
      \<and> log_lines st' = log_lines st"
proof (cases "window_of st (ueID p)")
  case None
  then have f: "find_ue_window (ue_windows st) (ueID p) = None"
    by (simp add: window_of_None)
  from None assms have room: "length (ue_windows st) < MAX_UE_COUNT"
    by (simp add: window_free_def)
  let ?z = "\<lparr>ue_id = ueID p, current_serving_cell = 0, window_start_time = 0,
                window_active = False, buffer = []\<rparr>"
  let ?w = "?z\<lparr>current_serving_cell := servingCellID p,
       window_start_time := timestamp p, window_active := True, buffer := [p]\<rparr>"
  have ap: "add_point p ?z = Inr (?w, [])"
    by (rule add_point_seed) simp
  have "find_ue_window ((ue_windows st @ [?z])[length (ue_windows st) := ?w]) (ueID p)
          = Some (length (ue_windows st))"
    using find_ue_window_append_new [OF f, of ?w] by simp
  then show ?thesis
    using f room ap
    by (simp add: add_to_adaptive_window_def create_ue_window_def window_of_def)
next
  case (Some w)
  with assms have e: "buffer w = []" by (simp add: window_free_def)
  from Some have id: "ue_id w = ueID p"
    using find_ue_window_Some by (auto simp: window_of_def)
  from window_of_after_add [OF Some add_point_seed [OF e, of p]] id
  show ?thesis by auto
qed

lemma accumulate_list:
  assumes "window_of st u = Some w" and "buffer w \<noteq> []"
    and "\<forall>p \<in> set ps. ueID p = u \<and> servingCellID p = current_serving_cell w
           \<and> \<not> 5000 \<le> timestamp p - window_start_time w"
    and "count w + length ps \<le> 200"
  shows "\<exists>st'. ingest_all ps st = Inr st' \<and> window_of st' u = Some (w\<lparr>buffer := buffer w @ ps\<rparr>)
           \<and> log_lines st' = log_lines st"
  using assms
proof (induction ps arbitrary: st w)
  case Nil
  then show ?case by simp
next
  case (Cons p ps)
  let ?w1 = "w\<lparr>buffer := buffer w @ [p]\<rparr>"
  from Cons.prems have p: "ueID p = u" "current_serving_cell w = servingCellID p"
    "\<not> 5000 \<le> timestamp p - window_start_time w" "count w < 200"
    by auto
  have ap: "add_point p w = Inr (?w1, [])"
    using add_point_accumulate [OF Cons.prems(2) p(2) p(4) p(3)] .
  from window_of_after_add [of st p w ?w1 "[]"] Cons.prems(1) ap p(1)
  obtain st1 where st1: "add_to_adaptive_window p st = Inr st1"
    "window_of st1 u = Some ?w1" "log_lines st1 = log_lines st"
    by auto
  have "\<exists>st'. ingest_all ps st1 = Inr st' \<and>
          window_of st' u = Some (?w1\<lparr>buffer := buffer ?w1 @ ps\<rparr>) \<and>
          log_lines st' = log_lines st1"
    using Cons.prems by (intro Cons.IH [OF st1(2)]) auto
  then show ?case using st1 by auto
qed

lemma ingest_all_append:
  "ingest_all (xs @ ys) st =
     (case ingest_all xs st of Inl f \<Rightarrow> Inl f | Inr s \<Rightarrow> ingest_all ys s)"
  by (induction xs arbitrary: st) (auto split: sum.splits)

lemma window_run:
  assumes "window_free st u"
    and "\<forall>p \<in> set (p0 # ps). ueID p = u \<and> servingCellID p = c"
    and "\<forall>p \<in> set ps. \<not> 5000 \<le> timestamp p - timestamp p0"
    and "length (p0 # ps) \<le> 200"
  shows "\<exists>s w. ingest_all (p0 # ps) st = Inr s \<and> window_of s u = Some w
           \<and> buffer w = p0 # ps \<and> current_serving_cell w = c
           \<and> window_start_time w = timestamp p0 \<and> ue_id w = u
           \<and> log_lines s = log_lines st"
proof -
  from assms(2) have u: "ueID p0 = u" and c: "servingCellID p0 = c" by auto
  from add_first [of st p0] assms(1) u c
  obtain s1 w1 where s1: "add_to_adaptive_window p0 st = Inr s1" "window_of s1 u = Some w1"
    "buffer w1 = [p0]" "current_serving_cell w1 = c" "window_start_time w1 = timestamp p0"
    "ue_id w1 = u" "log_lines s1 = log_lines st"
    by auto
  have "\<exists>st'. ingest_all ps s1 = Inr st' \<and> window_of st' u = Some (w1\<lparr>buffer := buffer w1 @ ps\<rparr>)
           \<and> log_lines st' = log_lines s1"
    using assms s1 by (intro accumulate_list) auto
  then show ?thesis using s1 by auto
qed

lemma window_run_close:
  assumes "window_free st u"
    and "\<forall>p \<in> set (p0 # ps @ [q]). ueID p = u \<and> servingCellID p = c"
    and "\<forall>p \<in> set ps. \<not> 5000 \<le> timestamp p - timestamp p0"
    and "5000 \<le> timestamp q - timestamp p0"
    and "length (p0 # ps) < 200"
  shows "\<exists>s w w'. ingest_all (p0 # ps @ [q]) st = Inr s \<and> window_of s u = Some w
           \<and> buffer w = [] \<and> ue_id w = u
           \<and> buffer w' = p0 # ps @ [q] \<and> ue_id w' = u \<and> current_serving_cell w' = c
           \<and> log_lines s = log_lines st @ send_window_batch_to_python w'"
proof -
  have "\<exists>s w. ingest_all (p0 # ps) st = Inr s \<and> window_of s u = Some w
           \<and> buffer w = p0 # ps \<and> current_serving_cell w = c
           \<and> window_start_time w = timestamp p0 \<and> ue_id w = u
           \<and> log_lines s = log_lines st"
    using assms by (intro window_run) auto
  then obtain s1 w1 where s1: "ingest_all (p0 # ps) st = Inr s1" "window_of s1 u = Some w1"
    "buffer w1 = p0 # ps" "current_serving_cell w1 = c"
    "window_start_time w1 = timestamp p0" "ue_id w1 = u" "log_lines s1 = log_lines st"
    by blast
  from assms(2) have q: "ueID q = u" "servingCellID q = c" by auto
  let ?w' = "w1\<lparr>buffer := buffer w1 @ [q]\<rparr>"
  have ap: "add_point q w1 = Inr (reset_window ?w' (timestamp q), send_window_batch_to_python ?w')"
    using s1 q assms(4,5) by (intro add_point_close) auto
  from window_of_after_add [of s1 q w1, OF _ ap] s1(2) q(1)
  obtain s2 where s2: "add_to_adaptive_window q s1 = Inr s2"
    "window_of s2 u = Some (reset_window ?w' (timestamp q))"
    "log_lines s2 = log_lines s1 @ send_window_batch_to_python ?w'"
    by auto
  have run: "ingest_all ((p0 # ps) @ [q]) st = Inr s2"
    using s1(1) s2(1) by (simp only: ingest_all_append) simp
  show ?thesis
  proof (intro exI conjI)
    show "ingest_all (p0 # ps @ [q]) st = Inr s2" using run by simp
    show "window_of s2 u = Some (reset_window ?w' (timestamp q))" by (rule s2(2))
    show "buffer (reset_window ?w' (timestamp q)) = []" by (simp add: reset_window_def)
    show "ue_id (reset_window ?w' (timestamp q)) = u" using s1 by (simp add: reset_window_def)
    show "buffer ?w' = p0 # ps @ [q]" using s1 by simp
    show "ue_id ?w' = u" using s1 by simp
    show "current_serving_cell ?w' = c" using s1 by simp
    show "log_lines s2 = log_lines st @ send_window_batch_to_python ?w'"
      using s2(3) s1(7) by simp
  qed
qed

lemma send_nonempty:
  "buffer w \<noteq> [] \<Longrightarrow> send_window_batch_to_python w =
     [\<lparr>avg_timestamp = sum_uint64 (map timestamp (buffer w)) div (word_of_nat (count w)),
       line_ue_id = ue_id w,
       line_serving_cell = current_serving_cell w,
       avg_serving_sinr = ddiv_size (sum_double (map servingSINR (buffer w))) (count w),
       avg_neighbor_sinr =
         (ddiv_size (sum_double (map nb0 (buffer w))) (count w),
          ddiv_size (sum_double (map nb1 (buffer w))) (count w),
          ddiv_size (sum_double (map nb2 (buffer w))) (count w)),
       line_x = servingCellX (last (buffer w)),
       line_y = servingCellY (last (buffer w))\<rparr>]"
  by (simp add: send_window_batch_to_python_def Let_def last_conv_nth)

text \<open>
  Claim C1. A window of a UE that holds N \<ge> 1 samples under serving cell L receives a
  point of that UE with another serving cell L'. The call logs exactly one line, which
  carries L and the averages over the N samples, and leaves the UE's window with the new
  point as its only sample, under L' and started at the point's timestamp; the other
  windows are as before.
\<close>

theorem C1:
  assumes "find_ue_window (ue_windows st) (ueID p) = Some i"
    and "w = ue_windows st ! i"
    and "1 \<le> count w"
    and "current_serving_cell w \<noteq> servingCellID p"
  shows "\<exists>st' line.
      add_to_adaptive_window p st = Inr st'
    \<and> log_lines st' = log_lines st @ [line]
    \<and> line_ue_id line = ueID p
    \<and> line_serving_cell line = current_serving_cell w
    \<and> avg_serving_sinr line = ddiv_size (sum_double (map servingSINR (buffer w))) (count w)
    \<and> avg_neighbor_sinr line =
         (ddiv_size (sum_double (map nb0 (buffer w))) (count w),
          ddiv_size (sum_double (map nb1 (buffer w))) (count w),
          ddiv_size (sum_double (map nb2 (buffer w))) (count w))
    \<and> find_ue_window (ue_windows st') (ueID p) = Some i
    \<and> buffer (ue_windows st' ! i) = [p]
    \<and> current_serving_cell (ue_windows st' ! i) = servingCellID p
    \<and> window_start_time (ue_windows st' ! i) = timestamp p
    \<and> ue_windows st' = (ue_windows st)[i := ue_windows st' ! i]"
proof -
  from assms(1) have i: "i < length (ue_windows st)" and u: "ue_id (ue_windows st ! i) = ueID p"
    using find_ue_window_Some by blast+
  from assms(3) have ne: "buffer w \<noteq> []" by auto
  let ?w' = "(reset_window w (timestamp p))\<lparr>current_serving_cell := servingCellID p,
      window_active := True, buffer := [p]\<rparr>"
  have ap: "add_point p w = Inr (?w', send_window_batch_to_python w)"
    using ne assms(4) by (simp add: add_point_def)
  have idw: "ue_id ?w' = ue_id (ue_windows st ! i)"
    using assms(2) by (simp add: reset_window_def)
  have fnd: "find_ue_window ((ue_windows st)[i := ?w']) (ueID p) = Some i"
    using find_ue_window_update [OF i idw] assms(1) by simp
  show ?thesis
    using assms(1,2) ap i u fnd ne
    by (simp add: add_to_adaptive_window_def send_nonempty reset_window_def)
qed

text \<open>An instance of claim C1.\<close>

theorem C1_witness:
  "\<exists>st' line.
      add_to_adaptive_window (example_point 700 1 3 (Fin 4)) example_state = Inr st'
    \<and> log_lines st' = [line]
    \<and> line_serving_cell line = 2
    \<and> avg_serving_sinr line = Fin 15
    \<and> buffer (ue_windows st' ! 0) = [example_point 700 1 3 (Fin 4)]
    \<and> current_serving_cell (ue_windows st' ! 0) = 3"
proof -
  have 1: "find_ue_window (ue_windows example_state) (ueID (example_point 700 1 3 (Fin 4))) = Some 0"
    by (simp add: example_state_def example_point_def)
  have 3: "1 \<le> count (ue_windows example_state ! 0)"
    by (simp add: example_state_def)
  have 4: "current_serving_cell (ue_windows example_state ! 0)
             \<noteq> servingCellID (example_point 700 1 3 (Fin 4))"
    by (simp add: example_state_def example_point_def)
  from C1 [OF 1 refl 3 4] obtain st' line where
    r: "add_to_adaptive_window (example_point 700 1 3 (Fin 4)) example_state = Inr st'"
      "log_lines st' = log_lines example_state @ [line]"
      "line_serving_cell line = current_serving_cell (ue_windows example_state ! 0)"
      "avg_serving_sinr line =
         ddiv_size (sum_double (map servingSINR (buffer (ue_windows example_state ! 0))))
           (count (ue_windows example_state ! 0))"
      "buffer (ue_windows st' ! 0) = [example_point 700 1 3 (Fin 4)]"
      "current_serving_cell (ue_windows st' ! 0) = servingCellID (example_point 700 1 3 (Fin 4))"
    by blast
  show ?thesis
  proof (intro exI conjI)
    show "add_to_adaptive_window (example_point 700 1 3 (Fin 4)) example_state = Inr st'"
      by (rule r(1))
    show "log_lines st' = [line]" using r(2) by (simp add: example_state_def)
    show "line_serving_cell line = 2" using r(3) by (simp add: example_state_def)
    show "avg_serving_sinr line = Fin 15"
      using r(4) by (simp add: example_state_def example_point_def sum_double_def)
    show "buffer (ue_windows st' ! 0) = [example_point 700 1 3 (Fin 4)]" by (rule r(5))
    show "current_serving_cell (ue_windows st' ! 0) = 3"
      using r(6) by (simp add: example_point_def)
  qed
qed

text \<open>
  Claim C2. With the threshold 5000 of the source, a UE without pending samples is fed six
  points of one serving cell at timestamps 0, 1000, 2000, 3000, 4000 and 5000. After each
  of the first five the window holds the points so far and nothing has been logged; the
  sixth closes the window (the test follows the store), and the one line logged carries
  the mean of the six serving values as the source computes it: their sum in doubles,
  taken from 0.0 in the order of arrival, divided by the count 6. The serving values are
  any doubles; nothing is assumed of how doubles add or divide.
\<close>

theorem C2:
  assumes free: "window_free st u"
    and ps: "ps = [p0, p1, p2, p3, p4, p5]"
    and ts: "map timestamp ps = [0, 1000, 2000, 3000, 4000, 5000]"
    and same: "\<forall>p \<in> set ps. ueID p = u \<and> servingCellID p = c"
  shows "(\<forall>k \<in> {1..5}. \<exists>s w. ingest_all (take k ps) st = Inr s \<and> window_of s u = Some w
             \<and> buffer w = take k ps \<and> log_lines s = log_lines st)
       \<and> (\<exists>s w line. ingest_all ps st = Inr s \<and> log_lines s = log_lines st @ [line]
             \<and> avg_serving_sinr line = mean_double (map servingSINR ps)
             \<and> length (map servingSINR ps) = 6
             \<and> line_ue_id line = u \<and> line_serving_cell line = c
             \<and> window_of s u = Some w \<and> buffer w = [])"
proof
  show "\<forall>k \<in> {1..5}. \<exists>s w. ingest_all (take k ps) st = Inr s \<and> window_of s u = Some w
             \<and> buffer w = take k ps \<and> log_lines s = log_lines st"
  proof
    fix k :: nat assume "k \<in> {1..5}"
    then obtain j where k: "k = Suc j" and j: "j \<le> 4" by (cases k) auto
    let ?qs = "take j [p1, p2, p3, p4]"
    have tk: "take k ps = p0 # ?qs" using k j ps by (simp add: take_Cons')
    have sub: "set ?qs \<subseteq> {p1, p2, p3, p4}" using set_take_subset [of j "[p1, p2, p3, p4]"] by simp
    have late: "\<forall>p \<in> set ?qs. \<not> 5000 \<le> timestamp p - timestamp p0"
      using sub ts ps by auto
    have "\<exists>s w. ingest_all (p0 # ?qs) st = Inr s \<and> window_of s u = Some w
           \<and> buffer w = p0 # ?qs \<and> current_serving_cell w = c
           \<and> window_start_time w = timestamp p0 \<and> ue_id w = u
           \<and> log_lines s = log_lines st"
      using free same sub ps late by (intro window_run) auto
    then show "\<exists>s w. ingest_all (take k ps) st = Inr s \<and> window_of s u = Some w
             \<and> buffer w = take k ps \<and> log_lines s = log_lines st"
      unfolding tk by blast
  qed
next
  have "\<exists>s w w'. ingest_all (p0 # [p1, p2, p3, p4] @ [p5]) st = Inr s \<and> window_of s u = Some w
           \<and> buffer w = [] \<and> ue_id w = u
           \<and> buffer w' = p0 # [p1, p2, p3, p4] @ [p5] \<and> ue_id w' = u \<and> current_serving_cell w' = c
           \<and> log_lines s = log_lines st @ send_window_batch_to_python w'"
    using free same ts ps by (intro window_run_close) auto
  then obtain s w w' where r: "ingest_all ps st = Inr s" "window_of s u = Some w" "buffer w = []"
    "buffer w' = ps" "ue_id w' = u" "current_serving_cell w' = c"
    "log_lines s = log_lines st @ send_window_batch_to_python w'"
    using ps by auto
  have ne: "buffer w' \<noteq> []" using r(4) ps by simp
  have len: "length ps = 6" using ps by simp
  have avg: "mean_double (map servingSINR ps) = ddiv_size (sum_double (map servingSINR ps)) 6"
    using len by (simp add: mean_double_def)
  show "\<exists>s w line. ingest_all ps st = Inr s \<and> log_lines s = log_lines st @ [line]
             \<and> avg_serving_sinr line = mean_double (map servingSINR ps)
             \<and> length (map servingSINR ps) = 6
             \<and> line_ue_id line = u \<and> line_serving_cell line = c
             \<and> window_of s u = Some w \<and> buffer w = []"
    using r len by (simp add: send_nonempty [OF ne] avg)
qed

text \<open>
  An instance of claim C2, with the serving values 1 to 6: every partial sum and the
  quotient 21 / 6 = 3.5 are doubles, so the value is the one the code prints.
\<close>

theorem C2_witness:
  "window_free initial_ma_state 1
   \<and> (\<exists>s w line. ingest_all example_samples initial_ma_state = Inr s
      \<and> log_lines s = [line]
      \<and> avg_serving_sinr line = mean_double (map servingSINR example_samples)
      \<and> avg_serving_sinr line = Fin (7 / 2)
      \<and> window_of s 1 = Some w \<and> buffer w = [])"
proof -
  have f: "window_free initial_ma_state 1"
    by (simp add: window_free_def window_of_def initial_ma_state_def MAX_UE_COUNT_def)
  have ts: "map timestamp example_samples = [0, 1000, 2000, 3000, 4000, 5000]"
    by (simp add: example_samples_def example_point_def)
  have same: "\<forall>p \<in> set example_samples. ueID p = 1 \<and> servingCellID p = 2"
    by (simp add: example_samples_def example_point_def)
  from C2 [OF f example_samples_def ts same]
  obtain s w line where r: "ingest_all example_samples initial_ma_state = Inr s"
    "log_lines s = log_lines initial_ma_state @ [line]"
    "avg_serving_sinr line = mean_double (map servingSINR example_samples)"
    "window_of s 1 = Some w" "buffer w = []"
    by blast
  have "log_lines s = [line]" using r(2) by (simp add: initial_ma_state_def)
  moreover have "mean_double (map servingSINR example_samples) = Fin (7 / 2)"
    by (simp add: mean_double_def sum_double_def example_samples_def example_point_def)
  ultimately show ?thesis using f r(1,3,4,5) by auto
qed

lemma replicate_201: "replicate 201 p = p # replicate 199 p @ [p]"
proof -
  have "(201::nat) = Suc (199 + 1)" by simp
  then show ?thesis by (simp only: replicate_Suc replicate_add) simp
qed

lemma buffer_overrun:
  assumes "window_free st (ueID p)" and "\<not> 5000 \<le> timestamp p - timestamp p"
  shows "ingest_all (p # replicate 199 p @ [p]) st = Inl (Store_past_buffer 200)"
proof -
  have "\<exists>s w. ingest_all (p # replicate 199 p) st = Inr s \<and> window_of s (ueID p) = Some w
           \<and> buffer w = p # replicate 199 p \<and> current_serving_cell w = servingCellID p
           \<and> window_start_time w = timestamp p \<and> ue_id w = ueID p
           \<and> log_lines s = log_lines st"
    using assms by (intro window_run) auto
  then obtain s w where s: "ingest_all (p # replicate 199 p) st = Inr s"
    "window_of s (ueID p) = Some w" "buffer w = p # replicate 199 p"
    "current_serving_cell w = servingCellID p"
    by blast
  have "add_point p w = Inl (Store_past_buffer (count w))"
    using s by (intro add_point_overflow) auto
  then have "add_to_adaptive_window p s = Inl (Store_past_buffer 200)"
    using window_of_after_fault [OF s(2)] s(3) by simp
  then have "ingest_all ((p # replicate 199 p) @ [p]) st = Inl (Store_past_buffer 200)"
    using s(1) by (simp only: ingest_all_append) simp
  then show ?thesis by simp
qed

text \<open>A call that returns leaves at most 200 samples in the window.\<close>

lemma add_point_count_bound:
  assumes "add_point p w = Inr (w', out)"
  shows "count w' \<le> BUFFER_CAPACITY"
  using assms
  by (auto simp: add_point_def reset_window_def Let_def BUFFER_CAPACITY_def split: if_splits)

text \<open>
  Claim C9. The source has no bound check before \<open>buffer[count++]\<close>: 201 points of one UE
  and one serving cell that share a timestamp fill the 200 slots and then store at index
  200, past the array.
\<close>

theorem C9_store_past_buffer:
  "ingest_all (replicate 201 (example_point 0 1 2 (Fin 10))) initial_ma_state
     = Inl (Store_past_buffer 200)"
proof -
  have "window_free initial_ma_state (ueID (example_point 0 1 2 (Fin 10)))"
    by (simp add: window_free_def window_of_def initial_ma_state_def MAX_UE_COUNT_def)
  then show ?thesis
    unfolding replicate_201 by (intro buffer_overrun) (simp_all add: example_point_def)
qed

section \<open>Properties of the indication loop of the time-bounded variant\<close>

lemma collect_serving_unknown: "unknown_id (fst t) \<Longrightarrow> collect_serving ts ms t = ms"
  by (auto simp: unknown_id_def collect_serving_def Let_def split: meas_type_t.splits meas_name.splits)

lemma collect_neigh_unknown: "unknown_id (fst t) \<Longrightarrow> collect_neigh ms t = ms"
  by (auto simp: unknown_id_def collect_neigh_def Let_def split: meas_type_t.splits meas_name.splits)

lemma foldl_skip_all: "\<forall>t \<in> set xs. \<forall>a. f a t = a \<Longrightarrow> foldl f a xs = a"
  by (induction xs arbitrary: a) auto

lemma zip_msg_of: "zip (meas_info_lst (msg_of items)) (meas_data_lst (msg_of items)) = items"
  by (simp add: msg_of_def zip_map_fst_snd)

lemma process_nothing:
  "measurements st = [] \<Longrightarrow> process_measurements_to_adaptive_windows st = Inr st"
  by (simp add: process_measurements_to_adaptive_windows_def)

text \<open>
  Claim C7. An item of an indication whose cell id or UE id came out of the name as the
  sentinel 65535 is passed over by both loops of \<open>log_kpm_measurements\<close>: the indication
  leaves the state it would leave without the item, with the same windows and the same
  lines logged. An indication made only of such items changes nothing: no window is
  created or changed and no line is logged.
\<close>

theorem C7:
  assumes "unknown_id (fst t)"
  shows "(xs @ ys \<noteq> [] \<longrightarrow>
            log_kpm_measurements (msg_of (xs @ t # ys)) ts st
              = log_kpm_measurements (msg_of (xs @ ys)) ts st)
       \<and> (\<forall>items. items \<noteq> [] \<and> (\<forall>i \<in> set items. unknown_id (fst i)) \<and> measurements st = []
            \<longrightarrow> log_kpm_measurements (msg_of items) ts st = Inr st)"
proof (intro conjI impI allI)
  assume "xs @ ys \<noteq> []"
  moreover have "foldl (collect_serving k) a (xs @ t # ys) = foldl (collect_serving k) a (xs @ ys)" for k a
    using assms by (simp add: collect_serving_unknown)
  moreover have "foldl collect_neigh a (xs @ t # ys) = foldl collect_neigh a (xs @ ys)" for a
    using assms by (simp add: collect_neigh_unknown)
  ultimately show "log_kpm_measurements (msg_of (xs @ t # ys)) ts st
              = log_kpm_measurements (msg_of (xs @ ys)) ts st"
    unfolding log_kpm_measurements_def zip_msg_of
    by (auto simp add: msg_of_def)
next
  fix items :: "(meas_type_t \<times> meas_record_lst_t list) list"
  assume a: "items \<noteq> [] \<and> (\<forall>i \<in> set items. unknown_id (fst i)) \<and> measurements st = []"
  have 1: "foldl (collect_serving k) m items = m" for k m
    using a by (intro foldl_skip_all) (simp add: collect_serving_unknown)
  have 2: "foldl collect_neigh m items = m" for m
    using a by (intro foldl_skip_all) (simp add: collect_neigh_unknown)
  show "log_kpm_measurements (msg_of items) ts st = Inr st"
    unfolding log_kpm_measurements_def zip_msg_of
    using a by (simp add: 1 2 process_nothing msg_of_def)
qed

text \<open>An instance of claim C7.\<close>

theorem C7_witness:
  "unknown_id (fst unknown_item)
   \<and> log_kpm_measurements (msg_of [serving_item 2 1 (Fin 7), unknown_item]) 0 initial_ma_state
       = log_kpm_measurements (msg_of [serving_item 2 1 (Fin 7)]) 0 initial_ma_state
   \<and> log_kpm_measurements (msg_of [unknown_item]) 0 initial_ma_state = Inr initial_ma_state"
proof -
  have u: "unknown_id (fst unknown_item)"
    by (simp add: unknown_item_def unknown_id_def parseServingMsg_def UINT16_MAX_def)
  have m: "measurements initial_ma_state = []" by (simp add: initial_ma_state_def)
  from C7 [OF u, of "[serving_item 2 1 (Fin 7)]" "[]" 0 initial_ma_state] u m
  show ?thesis by simp
qed

section \<open>Properties of the ranking of the sequence-synchronized variant\<close>

lemma dless_trans: "dless a b \<Longrightarrow> dless b c \<Longrightarrow> dless a c"
  by (cases a; cases b; cases c) auto

lemma dless_asym: "dless a b \<Longrightarrow> \<not> dless b a"
  by (cases a; cases b) auto

lemma collect_valid_eq:
  "length acc \<le> 10 \<Longrightarrow>
   collect_valid serving hist acc
     = take 10 (acc @ map neighbor_data (filter (valid_neighbor serving) hist))"
proof (induction hist arbitrary: acc)
  case Nil
  then show ?case by simp
next
  case (Cons n hist)
  obtain nid s where n: "n = (nid, s)" by (cases n)
  show ?case
  proof (cases "length acc < 10")
    case True
    then show ?thesis
      using Cons.IH [of acc] Cons.IH [of "acc @ [neighbor_data n]"] n
      by (auto simp: valid_neighbor_def neighbor_data_def)
  next
    case False
    with Cons.prems have "length acc = 10" by simp
    then show ?thesis using n by simp
  qed
qed

lemmas v2_eval = check_and_send_ue_data_def example_buffer_def sort_neighbors_def
  get_cell_position_v2_def cell_positions_v2_def MIN_NEIGHBORS_REQUIRED_def select_top3_def
  zero_neighbor_def Let_def

declare sort_inner.simps [simp del] sort_outer.simps [simp del]

lemma sort_inner_props:
  assumes "i < j" and "n = length a"
  shows "length (sort_inner n i j a) = length a
       \<and> mset (sort_inner n i j a) = mset a
       \<and> (\<forall>p < i. sort_inner n i j a ! p = a ! p)
       \<and> ((\<forall>k. i < k \<and> k < j \<longrightarrow> not_below (a ! i) (a ! k))
            \<longrightarrow> (\<forall>k. i < k \<and> k < n \<longrightarrow> not_below (sort_inner n i j a ! i) (sort_inner n i j a ! k)))"
  using assms
proof (induction n i j a rule: sort_inner.induct)
  case (1 n i j a)
  show ?case
  proof (cases "j < n")
    case False
    then have eq: "sort_inner n i j a = a" by (simp add: sort_inner.simps [of n i j a])
    show ?thesis unfolding eq using False "1.prems" by auto
  next
    case True
    let ?a' = "if dless (nd_sinr (a ! i)) (nd_sinr (a ! j)) then a[i := a ! j, j := a ! i] else a"
    have unf: "sort_inner n i j a = sort_inner n i (j + 1) ?a'"
      using True by (simp add: sort_inner.simps [of n i j a])
    have len: "length ?a' = length a" by simp
    have ms: "mset ?a' = mset a"
      using True "1.prems" by (simp add: mset_swap)
    have pre: "\<forall>p < i. ?a' ! p = a ! p"
      using "1.prems" by simp
    have IH: "length (sort_inner n i (j + 1) ?a') = length ?a'
       \<and> mset (sort_inner n i (j + 1) ?a') = mset ?a'
       \<and> (\<forall>p < i. sort_inner n i (j + 1) ?a' ! p = ?a' ! p)
       \<and> ((\<forall>k. i < k \<and> k < j + 1 \<longrightarrow> not_below (?a' ! i) (?a' ! k))
            \<longrightarrow> (\<forall>k. i < k \<and> k < n \<longrightarrow>
                  not_below (sort_inner n i (j + 1) ?a' ! i) (sort_inner n i (j + 1) ?a' ! k)))"
      using "1.IH" [OF True] "1.prems" len by simp
    have step: "(\<forall>k. i < k \<and> k < j \<longrightarrow> not_below (a ! i) (a ! k))
        \<Longrightarrow> (\<forall>k. i < k \<and> k < j + 1 \<longrightarrow> not_below (?a' ! i) (?a' ! k))"
    proof (intro allI impI)
      fix k assume h: "\<forall>k. i < k \<and> k < j \<longrightarrow> not_below (a ! i) (a ! k)" and k: "i < k \<and> k < j + 1"
      show "not_below (?a' ! i) (?a' ! k)"
      proof (cases "dless (nd_sinr (a ! i)) (nd_sinr (a ! j))")
        case sw: True
        show ?thesis
        proof (cases "k = j")
          case True
          then show ?thesis
            using sw "1.prems" \<open>j < n\<close> dless_asym by (simp add: not_below_def)
        next
          case False
          with k have kj: "k < j" by simp
          with h k have "not_below (a ! i) (a ! k)" by simp
          then have "\<not> dless (nd_sinr (a ! j)) (nd_sinr (a ! k))"
            using sw dless_trans unfolding not_below_def by blast
          then show ?thesis
            using sw kj k "1.prems" \<open>j < n\<close> by (simp add: not_below_def)
        qed
      next
        case ns: False
        show ?thesis
        proof (cases "k = j")
          case True
          then show ?thesis using ns by (simp add: not_below_def)
        next
          case False
          with k h show ?thesis using ns by simp
        qed
      qed
    qed
    show ?thesis
      unfolding unf using IH len ms pre step by (metis (no_types, lifting))
  qed
qed

lemma in_set_drop_nth:
  "x \<in> set (drop i xs) \<longleftrightarrow> (\<exists>q. i \<le> q \<and> q < length xs \<and> xs ! q = x)"
proof
  assume "x \<in> set (drop i xs)"
  then obtain k where k: "k < length (drop i xs)" "drop i xs ! k = x"
    by (auto simp: in_set_conv_nth)
  then have "i \<le> i + k \<and> i + k < length xs \<and> xs ! (i + k) = x" by auto
  then show "\<exists>q. i \<le> q \<and> q < length xs \<and> xs ! q = x" by blast
next
  assume "\<exists>q. i \<le> q \<and> q < length xs \<and> xs ! q = x"
  then obtain q where q: "i \<le> q" "q < length xs" "xs ! q = x" by blast
  then have "q - i < length (drop i xs)" "drop i xs ! (q - i) = x" by auto
  then show "x \<in> set (drop i xs)" by (auto simp: in_set_conv_nth)
qed

lemma sort_inner_tail:
  assumes "i < j" and "n = length a" and "i \<le> q" and "q < n"
  shows "\<exists>q'. i \<le> q' \<and> q' < n \<and> sort_inner n i j a ! q = a ! q'"
proof -
  let ?r = "sort_inner n i j a"
  from sort_inner_props [OF assms(1,2)]
  have len: "length ?r = length a" and ms: "mset ?r = mset a" and pre: "\<forall>p < i. ?r ! p = a ! p"
    by blast+
  have "take i ?r = take i a"
    using len pre assms by (intro nth_take_lemma) auto
  moreover have "mset (take i ?r) + mset (drop i ?r) = mset (take i a) + mset (drop i a)"
    using ms by (simp flip: mset_append)
  ultimately have "mset (drop i ?r) = mset (drop i a)" by simp
  then have "set (drop i ?r) = set (drop i a)" by (rule mset_eq_setD)
  moreover have "?r ! q \<in> set (drop i ?r)"
    using assms len by (auto simp: in_set_drop_nth)
  ultimately have "?r ! q \<in> set (drop i a)" by simp
  then show ?thesis using assms by (auto simp: in_set_drop_nth)
qed

lemma sort_outer_props:
  assumes "n = length a"
    and "\<forall>p q. p < i \<and> p < q \<and> q < n \<longrightarrow> not_below (a ! p) (a ! q)"
  shows "length (sort_outer n i a) = length a
       \<and> mset (sort_outer n i a) = mset a
       \<and> (\<forall>p q. p < q \<and> q < n \<longrightarrow> not_below (sort_outer n i a ! p) (sort_outer n i a ! q))"
  using assms
proof (induction n i a rule: sort_outer.induct)
  case (1 n i a)
  show ?case
  proof (cases "i + 1 < n")
    case False
    then have eq: "sort_outer n i a = a" by (simp add: sort_outer.simps [of n i a])
    have "\<forall>p q. p < q \<and> q < n \<longrightarrow> not_below (a ! p) (a ! q)"
      using "1.prems"(2) False by auto
    then show ?thesis unfolding eq by simp
  next
    case True
    let ?a' = "sort_inner n i (i + 1) a"
    have unf: "sort_outer n i a = sort_outer n (i + 1) ?a'"
      using True by (simp add: sort_outer.simps [of n i a])
    have ii: "i < i + 1" by simp
    from sort_inner_props [OF ii "1.prems"(1)]
    have len: "length ?a' = length a" and ms: "mset ?a' = mset a"
      and pre: "\<forall>p < i. ?a' ! p = a ! p"
      and top: "\<forall>k. i < k \<and> k < n \<longrightarrow> not_below (?a' ! i) (?a' ! k)"
      by auto
    have inv: "\<forall>p q. p < i + 1 \<and> p < q \<and> q < n \<longrightarrow> not_below (?a' ! p) (?a' ! q)"
    proof (intro allI impI)
      fix p q assume h: "p < i + 1 \<and> p < q \<and> q < n"
      show "not_below (?a' ! p) (?a' ! q)"
      proof (cases "p = i")
        case True
        then show ?thesis using top h by simp
      next
        case False
        with h have pi: "p < i" by simp
        show ?thesis
        proof (cases "q < i")
          case True
          then show ?thesis using pre pi h "1.prems"(2) by simp
        next
          case False
          then have "i \<le> q" by simp
          from sort_inner_tail [OF ii "1.prems"(1) this] h
          obtain q' where "i \<le> q'" "q' < n" "?a' ! q = a ! q'" by auto
          then show ?thesis using pre pi "1.prems"(2) by simp
        qed
      qed
    qed
    have "length (sort_outer n (i + 1) ?a') = length ?a'
       \<and> mset (sort_outer n (i + 1) ?a') = mset ?a'
       \<and> (\<forall>p q. p < q \<and> q < n \<longrightarrow>
             not_below (sort_outer n (i + 1) ?a' ! p) (sort_outer n (i + 1) ?a' ! q))"
      using "1.IH" [OF True] "1.prems"(1) len inv by simp
    then show ?thesis unfolding unf using len ms by simp
  qed
qed

lemma sort_neighbors_props:
  "length (sort_neighbors a) = length a \<and> mset (sort_neighbors a) = mset a
     \<and> sorted_wrt not_below (sort_neighbors a)"
proof -
  have "length (sort_outer (length a) 0 a) = length a
       \<and> mset (sort_outer (length a) 0 a) = mset a
       \<and> (\<forall>p q. p < q \<and> q < length a \<longrightarrow>
             not_below (sort_outer (length a) 0 a ! p) (sort_outer (length a) 0 a ! q))"
    by (intro sort_outer_props) auto
  then show ?thesis
    by (simp add: sort_neighbors_def sorted_wrt_iff_nth_less)
qed

lemma ranked_valid:
  "set (sort_neighbors (collect_valid serving hist []))
     \<subseteq> neighbor_data ` {c \<in> set hist. valid_neighbor serving c}"
proof -
  have "set (sort_neighbors (collect_valid serving hist [])) = set (collect_valid serving hist [])"
    using sort_neighbors_props [of "collect_valid serving hist []"] mset_eq_setD by blast
  also have "\<dots> \<subseteq> set (map neighbor_data (filter (valid_neighbor serving) hist))"
    unfolding collect_valid_eq [of "[]", simplified] by (rule set_take_subset)
  finally show ?thesis by auto
qed

lemma ranked_length:
  "length (sort_neighbors (collect_valid serving hist []))
     = min 10 (length (filter (valid_neighbor serving) hist))"
  using sort_neighbors_props [of "collect_valid serving hist []"]
  by (simp add: collect_valid_eq)

lemma select_top3_take: "3 \<le> length a \<Longrightarrow> select_top3 a = take 3 a"
proof -
  assume a: "3 \<le> length a"
  then obtain x y z r where "a = x # y # z # r"
    by (cases a; simp; case_tac list; simp; case_tac lista; simp)
  then show ?thesis by (simp add: select_top3_def Let_def)
qed

text \<open>
  Claim C8. When fewer than \<open>MIN_NEIGHBORS_REQUIRED\<close> (3) neighbours of the history entry are
  valid (not the serving cell, metric not NaN, id not 0), \<open>check_and_send_ue_data\<close> returns
  before it formats anything: no line is written, padded or not.
\<close>

theorem C8:
  assumes "length (filter (valid_neighbor (b_servingCellID ue_buf))
             (history_neighbors (measurement_history ue_buf))) < MIN_NEIGHBORS_REQUIRED"
  shows "check_and_send_ue_data ue_buf seq = None"
proof -
  have "length (sort_neighbors (collect_valid (b_servingCellID ue_buf)
          (history_neighbors (measurement_history ue_buf)) [])) < MIN_NEIGHBORS_REQUIRED"
    using assms unfolding ranked_length by simp
  then show ?thesis
    by (simp add: check_and_send_ue_data_def Let_def)
qed

text \<open>An instance of claim C8.\<close>

theorem C8_witness:
  "check_and_send_ue_data (example_buffer 2 [(5, Fin 12), (6, Fin 9), (2, Fin 99), (7, NaN)]) 4 = None"
proof -
  have "length (filter (valid_neighbor (b_servingCellID (example_buffer 2 [(5, Fin 12), (6, Fin 9), (2, Fin 99), (7, NaN)])))
             (history_neighbors (measurement_history (example_buffer 2 [(5, Fin 12), (6, Fin 9), (2, Fin 99), (7, NaN)]))))
          < MIN_NEIGHBORS_REQUIRED"
    by (simp add: example_buffer_def valid_neighbor_def MIN_NEIGHBORS_REQUIRED_def)
  then show ?thesis by (rule C8)
qed

lemma mset_insert_by: "mset (insert_by cmp x xs) = add_mset x (mset xs)"
  by (induction xs) auto

lemma mset_qsort: "mset (qsort cmp xs) = mset xs"
  by (induction xs) (auto simp: qsort_def mset_insert_by)

lemma mset_sorted_neighbors: "mset (sorted_neighbors m) = mset (neighbors m)"
  by (simp add: sorted_neighbors_def mset_qsort)

lemma length_sorted_neighbors: "length (sorted_neighbors m) = num_neighbors m"
  using mset_sorted_neighbors [of m] mset_eq_length by blast

text \<open>
  Claim C4, as stated, fails. On the candidates of the claim, with serving cell 2, the
  sequence-synchronized variant writes no line at all, since two valid candidates are
  fewer than three; it keeps a candidate whose metric is infinite; and the time-bounded
  variant keeps the serving cell's own entry, here as the first slot.
\<close>

theorem C4_counterexample:
  "check_and_send_ue_data (example_buffer 2 [(5, Fin 12), (6, Fin 9), (2, Fin 99), (7, NaN)]) 0 = None
   \<and> map_option (map nd_sinr \<circ> top3)
        (check_and_send_ue_data (example_buffer 2 [(5, PInf), (6, Fin 1), (7, Fin 2), (8, Fin 3)]) 0)
       = Some [PInf, Fin 3, Fin 2]
   \<and> neighborSINR (point_of_measurement
         \<lparr>m_timestamp = 0, m_ueID = 1, m_servingCellID = 2, m_servingSINR = Fin 20,
          servingPos = None,
          neighbors = [\<lparr>neighCellID = 5, neighSINR = Fin 12\<rparr>, \<lparr>neighCellID = 6, neighSINR = Fin 9\<rparr>,
                       \<lparr>neighCellID = 2, neighSINR = Fin 99\<rparr>]\<rparr>)
       = (Fin 99, Fin 12, Fin 9)"
  by (simp add: v2_eval sort_inner.simps sort_outer.simps point_of_measurement_def
      sorted_neighbors_def qsort_def compare_neighbors_by_sinr_def top_sinr_def)

text \<open>
  Claim C4, amended. In the sequence-synchronized variant every line written has three
  neighbour slots, each one a candidate of the history entry that is not the serving
  cell, has a metric that is not NaN and has an id other than 0; with fewer than three
  such candidates no line is written, so a slot is never the sentinel. In the
  time-bounded variant no candidate is dropped, and the slots beyond the number of
  neighbours of the sample are 0.0.
\<close>

theorem C4_amended:
  "(\<forall>line. check_and_send_ue_data ue_buf seq = Some line \<longrightarrow>
       length (top3 line) = 3
     \<and> (\<forall>n \<in> set (top3 line).
           nd_cellID n \<noteq> b_servingCellID ue_buf \<and> \<not> isnan (nd_sinr n) \<and> nd_cellID n \<noteq> 0
         \<and> (nd_cellID n, nd_sinr n) \<in> set (history_neighbors (measurement_history ue_buf))))
   \<and> (length (filter (valid_neighbor (b_servingCellID ue_buf))
          (history_neighbors (measurement_history ue_buf))) < 3
        \<longrightarrow> check_and_send_ue_data ue_buf seq = None)
   \<and> mset (sorted_neighbors m) = mset (neighbors m)
   \<and> neighborSINR (point_of_measurement m)
        = (top_sinr (sorted_neighbors m) 0, top_sinr (sorted_neighbors m) 1,
           top_sinr (sorted_neighbors m) 2)
   \<and> (\<forall>j \<ge> num_neighbors m. top_sinr (sorted_neighbors m) j = Fin 0)"
proof (intro conjI allI impI)
  fix line assume s: "check_and_send_ue_data ue_buf seq = Some line"
  let ?r = "sort_neighbors (collect_valid (b_servingCellID ue_buf)
              (history_neighbors (measurement_history ue_buf)) [])"
  from s have len: "3 \<le> length ?r" and t: "top3 line = select_top3 ?r"
    by (auto simp: check_and_send_ue_data_def Let_def MIN_NEIGHBORS_REQUIRED_def split: if_splits)
  have t3: "top3 line = take 3 ?r" using t select_top3_take [OF len] by simp
  show "length (top3 line) = 3" using t3 len by simp
  show "\<forall>n \<in> set (top3 line).
           nd_cellID n \<noteq> b_servingCellID ue_buf \<and> \<not> isnan (nd_sinr n) \<and> nd_cellID n \<noteq> 0
         \<and> (nd_cellID n, nd_sinr n) \<in> set (history_neighbors (measurement_history ue_buf))"
  proof
    fix n assume "n \<in> set (top3 line)"
    then have "n \<in> set ?r" using t3 by (auto dest: in_set_takeD)
    then obtain c where "c \<in> set (history_neighbors (measurement_history ue_buf))"
      "valid_neighbor (b_servingCellID ue_buf) c" "n = neighbor_data c"
      using ranked_valid by blast
    then show "nd_cellID n \<noteq> b_servingCellID ue_buf \<and> \<not> isnan (nd_sinr n) \<and> nd_cellID n \<noteq> 0
         \<and> (nd_cellID n, nd_sinr n) \<in> set (history_neighbors (measurement_history ue_buf))"
      by (simp add: valid_neighbor_def neighbor_data_def)
  qed
next
  assume "length (filter (valid_neighbor (b_servingCellID ue_buf))
          (history_neighbors (measurement_history ue_buf))) < 3"
  then have "length (sort_neighbors (collect_valid (b_servingCellID ue_buf)
          (history_neighbors (measurement_history ue_buf)) [])) < MIN_NEIGHBORS_REQUIRED"
    unfolding ranked_length by (simp add: MIN_NEIGHBORS_REQUIRED_def)
  then show "check_and_send_ue_data ue_buf seq = None"
    by (simp add: check_and_send_ue_data_def Let_def)
next
  show "mset (sorted_neighbors m) = mset (neighbors m)" by (rule mset_sorted_neighbors)
  show "neighborSINR (point_of_measurement m)
        = (top_sinr (sorted_neighbors m) 0, top_sinr (sorted_neighbors m) 1,
           top_sinr (sorted_neighbors m) 2)"
    by (simp add: point_of_measurement_def Let_def)
next
  fix j assume "num_neighbors m \<le> j"
  then show "top_sinr (sorted_neighbors m) j = Fin 0"
    by (simp add: top_sinr_def length_sorted_neighbors)
qed

text \<open>
  Claim C5, as stated, fails. Cells 5 and 6 have the same metric and cell 5 was inserted
  first; the line written ranks cell 6 before cell 5.
\<close>

theorem C5_counterexample:
  "map_option (map nd_cellID \<circ> top3)
     (check_and_send_ue_data (example_buffer 2 [(5, Fin 1), (6, Fin 1), (7, Fin 2)]) 0)
     = Some [7, 6, 5]"
  by (simp add: v2_eval sort_inner.simps sort_outer.simps)

text \<open>
  Claim C5, amended. The ranking of the sequence-synchronized variant is a permutation of
  the valid candidates (the first ten of them) in which no entry has a smaller metric
  than a later one, and the three slots of a line are its first three entries. The order
  among equal metrics is what the two nested loops leave, not the order of insertion.
\<close>

theorem C5_amended:
  "mset (sort_neighbors (collect_valid serving hist []))
     = mset (take 10 (map neighbor_data (filter (valid_neighbor serving) hist)))
   \<and> sorted_wrt not_below (sort_neighbors (collect_valid serving hist []))
   \<and> (\<forall>line. check_and_send_ue_data ue_buf seq = Some line \<longrightarrow>
         top3 line = take 3 (sort_neighbors (collect_valid (b_servingCellID ue_buf)
                              (history_neighbors (measurement_history ue_buf)) [])))"
proof (intro conjI allI impI)
  show "mset (sort_neighbors (collect_valid serving hist []))
     = mset (take 10 (map neighbor_data (filter (valid_neighbor serving) hist)))"
    using sort_neighbors_props [of "collect_valid serving hist []"]
    by (simp add: collect_valid_eq)
  show "sorted_wrt not_below (sort_neighbors (collect_valid serving hist []))"
    using sort_neighbors_props by blast
next
  fix line assume s: "check_and_send_ue_data ue_buf seq = Some line"
  let ?r = "sort_neighbors (collect_valid (b_servingCellID ue_buf)
              (history_neighbors (measurement_history ue_buf)) [])"
  from s have len: "3 \<le> length ?r" and t: "top3 line = select_top3 ?r"
    by (auto simp: check_and_send_ue_data_def Let_def MIN_NEIGHBORS_REQUIRED_def split: if_splits)
  show "top3 line = take 3 ?r" using t select_top3_take [OF len] by simp
qed

text \<open>An instance of the amended claim C4.\<close>

theorem C4_amended_witness:
  "\<exists>line. check_and_send_ue_data
        (example_buffer 2 [(5, Fin 12), (6, Fin 9), (2, Fin 99), (7, NaN), (8, Fin 3)]) 0 = Some line
     \<and> length (top3 line) = 3
     \<and> (\<forall>n \<in> set (top3 line). nd_cellID n \<noteq> 2 \<and> \<not> isnan (nd_sinr n) \<and> nd_cellID n \<noteq> 0)"
proof -
  let ?b = "example_buffer 2 [(5, Fin 12), (6, Fin 9), (2, Fin 99), (7, NaN), (8, Fin 3)]"
  have "\<exists>line. check_and_send_ue_data ?b 0 = Some line"
    by (simp add: v2_eval sort_inner.simps sort_outer.simps)
  then obtain line where l: "check_and_send_ue_data ?b 0 = Some line" by blast
  have s: "b_servingCellID ?b = 2" by (simp add: example_buffer_def)
  from C4_amended [of ?b 0] l s
  have "length (top3 line) = 3
     \<and> (\<forall>n \<in> set (top3 line). nd_cellID n \<noteq> 2 \<and> \<not> isnan (nd_sinr n) \<and> nd_cellID n \<noteq> 0)"
    by simp
  with l show ?thesis by blast
qed

text \<open>An instance of the amended claim C5.\<close>

theorem C5_amended_witness:
  "sorted_wrt not_below (sort_neighbors (collect_valid 2 [(5, Fin 1), (6, Fin 1), (7, Fin 2)] []))
   \<and> map nd_cellID (sort_neighbors (collect_valid 2 [(5, Fin 1), (6, Fin 1), (7, Fin 2)] []))
       = [7, 6, 5]"
proof -
  have "map nd_cellID (sort_neighbors (collect_valid 2 [(5, Fin 1), (6, Fin 1), (7, Fin 2)] []))
       = [7, 6, 5]"
    by (simp add: sort_neighbors_def sort_inner.simps sort_outer.simps)
  then show ?thesis
    using C5_amended [of 2 "[(5, Fin 1), (6, Fin 1), (7, Fin 2)]"] by blast
qed

section \<open>Properties of the burst clock\<close>

declare clear_assigned.simps [simp del]

lemma clear_assigned_faults:
  "i \<le> TOTAL_UES \<Longrightarrow> clear_assigned i flags = Inl (Store_past_burst_sequence_assigned TOTAL_UES)"
proof (induction i flags rule: clear_assigned.induct)
  case (1 i flags)
  show ?case
  proof (cases "i < TOTAL_UES")
    case True
    then show ?thesis
      using "1.IH" "1.prems" by (simp add: clear_assigned.simps [of i flags])
  next
    case False
    with "1.prems" have "i = TOTAL_UES" by simp
    then show ?thesis by (subst clear_assigned.simps) simp
  qed
qed

lemma assign_no_advance:
  assumes "assign_sequence_timestamp ue bs = Inr (seq_ts, bs')"
  shows "current_sequence_timestamp bs' = current_sequence_timestamp bs"
  using assms
  by (auto simp: assign_sequence_timestamp_def Let_def clear_assigned_faults split: if_splits)

text \<open>
  What the function does on a UE already recorded, on a new UE that does not complete the
  burst, and on the UE that completes it.
\<close>

lemma assign_again:
  assumes "unat ue < TOTAL_UES" and "burst_sequence_assigned bs ! unat ue"
  shows "assign_sequence_timestamp ue bs = Inr (ue_sequence_timestamps bs ! unat ue, bs)"
  using assms by (simp add: assign_sequence_timestamp_def Let_def)

lemma assign_first:
  assumes "unat ue < TOTAL_UES" and "\<not> burst_sequence_assigned bs ! unat ue"
    and "current_burst_ue_count bs + 1 < int TOTAL_UES"
    and "length (ue_sequence_timestamps bs) = TOTAL_UES + 1"
  shows "\<exists>bs'. assign_sequence_timestamp ue bs = Inr (current_sequence_timestamp bs, bs')
           \<and> current_burst_ue_count bs' = current_burst_ue_count bs + 1
           \<and> current_sequence_timestamp bs' = current_sequence_timestamp bs"
  using assms by (simp add: assign_sequence_timestamp_def Let_def)

lemma assign_completion_faults:
  assumes "unat ue < TOTAL_UES" and "\<not> burst_sequence_assigned bs ! unat ue"
    and "int TOTAL_UES \<le> current_burst_ue_count bs + 1"
  shows "assign_sequence_timestamp ue bs = Inl (Store_past_burst_sequence_assigned TOTAL_UES)"
  using assms by (simp add: assign_sequence_timestamp_def Let_def clear_assigned_faults)

text \<open>
  Claim C6. From the initial globals, twenty-seven distinct UEs each get sequence 0. The
  twenty-eighth distinct UE completes the burst: the source then clears
  \<open>burst_sequence_assigned\<close> with a loop that runs to index \<open>TOTAL_UES\<close> inclusive and stores
  one slot past the array of \<open>TOTAL_UES\<close> flags. A UE with id 28, the last of the ids 1 to
  28 the source names, is looked up past the array at once.
\<close>

theorem C6_burst_completion_faults:
  "map_sum id (set \<circ> fst) (assign_all burst_ids initial_burst_state) = Inr {0}
   \<and> assign_all (burst_ids @ [27]) initial_burst_state = Inl (Store_past_burst_sequence_assigned 28)
   \<and> assign_sequence_timestamp 28 initial_burst_state = Inl (Load_past_burst_sequence_assigned 28)"
  by (simp add: burst_ids_def assign_sequence_timestamp_def initial_burst_state_def TOTAL_UES_def Let_def
      clear_assigned_faults [unfolded TOTAL_UES_def])

section \<open>Properties of the send loop of the sequence-synchronized variant\<close>

lemma find_ue_buffer_Some:
  "find_ue_buffer bufs u = Some i \<Longrightarrow> i < length bufs \<and> b_ueID (bufs ! i) = u"
  by (induction bufs arbitrary: i) (auto split: if_splits)

lemma get_or_create_props:
  assumes "get_or_create_ue_buffer bufs u = Some (i, bufs')"
  shows "i < length bufs' \<and> b_ueID (bufs' ! i) = u
       \<and> (bufs' = bufs \<or> bufs' = bufs @ [zero_ue_buffer u])"
  using assms find_ue_buffer_Some
  by (auto simp: get_or_create_ue_buffer_def zero_ue_buffer_def nth_append
      split: option.splits if_splits)

lemma no_history_create:
  assumes "no_history e bufs" and "get_or_create_ue_buffer bufs u = Some (i, bufs')"
  shows "no_history e bufs'"
proof -
  from get_or_create_props [OF assms(2)]
  consider "bufs' = bufs" | "bufs' = bufs @ [zero_ue_buffer u]" by blast
  then show ?thesis
  proof cases
    case 1
    then show ?thesis using assms(1) by simp
  next
    case 2
    have "history_count (zero_ue_buffer u) = 0" by (simp add: zero_ue_buffer_def)
    then show ?thesis using assms(1) 2 by (auto simp: no_history_def)
  qed
qed

lemma no_history_update:
  assumes "no_history e bufs" and "b_ueID b = e \<longrightarrow> history_count b = 0"
  shows "no_history e (bufs[i := b])"
  using assms set_update_subset_insert [of bufs i b]
  by (auto simp: no_history_def)

lemma add_serving_sample_id: "b_ueID (add_serving_sample b c s t) = b_ueID b"
  by (simp add: add_serving_sample_def)

lemma add_neighbor_sample_keeps:
  "b_ueID (add_neighbor_sample b c s) = b_ueID b
   \<and> history_count (add_neighbor_sample b c s) = history_count b"
  by (simp add: add_neighbor_sample_def)

lemma neighbor_pairs_keeps:
  "b_ueID (neighbor_pairs recs b) = b_ueID b \<and> history_count (neighbor_pairs recs b) = history_count b"
  by (induction recs b rule: neighbor_pairs.induct) (auto simp: add_neighbor_sample_keeps)

lemma collect_serving_v2_no_history:
  assumes "no_history e bufs" and "\<not> serving_for e (fst item)"
  shows "no_history e (collect_serving_v2 ts bufs item)"
proof -
  have step: "no_history e (serving_to_buffer ts info v bufs)" if "ueID_of info \<noteq> e" for info v
  proof (cases "get_or_create_ue_buffer bufs (ueID_of info)")
    case None
    then show ?thesis using assms(1) by (simp add: serving_to_buffer_def)
  next
    case (Some r)
    obtain i bufs' where r: "r = (i, bufs')" by (cases r)
    from get_or_create_props [of bufs "ueID_of info" i bufs'] Some r that
    have "b_ueID (bufs' ! i) \<noteq> e" by auto
    then have "no_history e (bufs'[i := add_serving_sample (bufs' ! i) (cellID info) v ts])"
      using no_history_create [OF assms(1)] Some r
      by (intro no_history_update) (auto simp: add_serving_sample_id)
    then show ?thesis using Some r by (simp add: serving_to_buffer_def)
  qed
  show ?thesis
    using assms step
    by (auto simp: collect_serving_v2_def serving_for_def Let_def
        split: meas_type_t.splits meas_name.splits meas_record_lst_t.splits)
qed

lemma collect_neigh_v2_no_history:
  assumes "no_history e bufs"
  shows "no_history e (collect_neigh_v2 bufs item)"
proof -
  have step: "no_history e (bufs'[i := neighbor_pairs recs (bufs' ! i)])"
    if "get_or_create_ue_buffer bufs u = Some (i, bufs')" for u i bufs' recs
  proof -
    have nh: "no_history e bufs'" using no_history_create [OF assms that] .
    have "i < length bufs'" using get_or_create_props [OF that] by simp
    then have "bufs' ! i \<in> set bufs'" by simp
    then have "b_ueID (bufs' ! i) = e \<longrightarrow> history_count (bufs' ! i) = 0"
      using nh by (simp add: no_history_def)
    then show ?thesis
      using nh by (intro no_history_update) (auto simp: neighbor_pairs_keeps)
  qed
  show ?thesis
    using assms step
    by (auto simp: collect_neigh_v2_def Let_def
        split: meas_type_t.splits meas_name.splits option.splits)
qed

lemma foldl_invariant:
  assumes "P a" and "\<And>a x. P a \<Longrightarrow> x \<in> set xs \<Longrightarrow> P (f a x)"
  shows "P (foldl f a xs)"
  using assms by (induction xs arbitrary: a) auto

lemma assign_other:
  assumes "assign_sequence_timestamp ue bs = Inr (s, bs')" and "ue \<noteq> e" and "unassigned e bs"
  shows "unassigned e bs'"
proof -
  have ne: "unat ue \<noteq> unat e" using assms(2) by (simp add: word_unat_eq_iff)
  show ?thesis
    using assms(1,3) ne
    by (auto simp: assign_sequence_timestamp_def Let_def clear_assigned_faults unassigned_def
        split: if_splits)
qed

lemma check_and_send_id:
  "check_and_send_ue_data b seq = Some line \<Longrightarrow> sl_ueID line = b_ueID b"
  by (auto simp: check_and_send_ue_data_def Let_def split: if_splits)

lemma send_all_keeps:
  assumes "no_history e bufs" and "\<forall>l \<in> set out. sl_ueID l \<noteq> e" and "unassigned e bs"
    and "send_all bufs bs out = Inr (bs', out')"
  shows "(\<forall>l \<in> set out'. sl_ueID l \<noteq> e) \<and> unassigned e bs'"
  using assms
proof (induction bufs arbitrary: bs out)
  case Nil
  then show ?case by simp
next
  case (Cons b bufs)
  have nh: "no_history e bufs" using Cons.prems(1) by (simp add: no_history_def)
  show ?case
  proof (cases "history_count b > 0")
    case False
    then show ?thesis using Cons.IH [OF nh Cons.prems(2,3)] Cons.prems(4) by simp
  next
    case True
    then have be: "b_ueID b \<noteq> e" using Cons.prems(1) by (auto simp: no_history_def)
    from True Cons.prems(4) obtain s bs1 where
      a: "assign_sequence_timestamp (b_ueID b) bs = Inr (s, bs1)"
      and r: "send_all bufs bs1
                (case check_and_send_ue_data b s of Some line \<Rightarrow> out @ [line] | None \<Rightarrow> out)
              = Inr (bs', out')"
      by (auto split: sum.splits)
    have u1: "unassigned e bs1" using assign_other [OF a be Cons.prems(3)] .
    have o1: "\<forall>l \<in> set (case check_and_send_ue_data b s of Some line \<Rightarrow> out @ [line] | None \<Rightarrow> out).
                sl_ueID l \<noteq> e"
      using Cons.prems(2) be check_and_send_id [of b s]
      by (auto split: option.splits)
    show ?thesis using Cons.IH [OF nh o1 u1 r] .
  qed
qed

text \<open>
  Claim C10. Let no indication of a run carry a serving item for the UE \<open>e\<close>, and let \<open>e\<close>
  start without a measurement in a history, without a line sent and without its flag set.
  Then, after the run, \<open>e\<close> still has no line sent and its flag is still not set, whatever
  neighbour items it sent: \<open>add_neighbor_sample\<close> leaves \<open>history_count\<close> as it is, and the
  send loop passes over a buffer whose \<open>history_count\<close> is 0 without calling
  \<open>assign_sequence_timestamp\<close> or \<open>check_and_send_ue_data\<close>.
\<close>

theorem C10:
  assumes "never_served e st"
    and "\<forall>d \<in> set ds. \<forall>mt \<in> set (meas_info_lst (fst d)). \<not> serving_for e mt"
    and "run_v2 ds st = Inr st'"
  shows "never_served e st'
       \<and> (\<forall>b c s. history_count (add_neighbor_sample b c s) = history_count b)
       \<and> (\<forall>b rest bs out. history_count b = 0 \<longrightarrow> send_all (b # rest) bs out = send_all rest bs out)"
proof (intro conjI allI impI)
  show "history_count (add_neighbor_sample b c s) = history_count b" for b c s
    by (simp add: add_neighbor_sample_def)
  show "send_all (b # rest) bs out = send_all rest bs out" if "history_count b = 0" for b rest bs out
    using that by simp
  show "never_served e st'"
  using assms
proof (induction ds arbitrary: st)
  case Nil
  then show ?case by simp
next
  case (Cons d ds)
  obtain msg ts where d: "d = (msg, ts)" by (cases d)
  from Cons.prems(3) d obtain st1 where
    s1: "log_kpm_measurements_v2 msg ts st = Inr st1" and r: "run_v2 ds st1 = Inr st'"
    by (auto split: sum.splits)
  have ns: "\<forall>mt \<in> set (meas_info_lst msg). \<not> serving_for e mt"
    using Cons.prems(2) d by simp
  have "never_served e st1"
  proof (cases "length (meas_info_lst msg) = length (meas_data_lst msg)")
    case False
    then show ?thesis
      using s1 Cons.prems(1) by (auto simp: log_kpm_measurements_v2_def split: if_splits)
  next
    case True
    let ?items = "zip (meas_info_lst msg) (meas_data_lst msg)"
    let ?b1 = "foldl (collect_serving_v2 ts) (ue_buffers st) ?items"
    let ?b2 = "foldl collect_neigh_v2 ?b1 ?items"
    have it: "\<And>x. x \<in> set ?items \<Longrightarrow> \<not> serving_for e (fst x)"
      using ns by (auto dest: set_zip_leftD)
    have nh0: "no_history e (ue_buffers st)" using Cons.prems(1) by (simp add: never_served_def)
    have nh1: "no_history e ?b1"
    proof (rule foldl_invariant [where P = "no_history e"])
      show "no_history e (ue_buffers st)" by (rule nh0)
      fix a x assume "no_history e a" "x \<in> set ?items"
      then show "no_history e (collect_serving_v2 ts a x)"
        using it collect_serving_v2_no_history by blast
    qed
    have nh2: "no_history e ?b2"
    proof (rule foldl_invariant [where P = "no_history e"])
      show "no_history e ?b1" by (rule nh1)
      fix a x assume "no_history e a"
      then show "no_history e (collect_neigh_v2 a x)"
        by (rule collect_neigh_v2_no_history)
    qed
    from s1 True obtain bs out where
      sa: "send_all ?b2 (burst st) (sent_lines st) = Inr (bs, out)"
      and st1: "st1 = \<lparr>ue_buffers = ?b2, burst = bs, sent_lines = out\<rparr>"
      by (auto simp: log_kpm_measurements_v2_def Let_def split: if_splits sum.splits)
    have "(\<forall>l \<in> set out. sl_ueID l \<noteq> e) \<and> unassigned e bs"
      using Cons.prems(1)
      by (intro send_all_keeps [OF nh2 _ _ sa]) (auto simp: never_served_def unassigned_def)
    then show ?thesis using nh2 st1 by (simp add: never_served_def unassigned_def)
  qed
  then show ?case using Cons.IH [OF _ _ r] Cons.prems(2) by simp
qed
qed

text \<open>An instance of claim C10.\<close>

theorem C10_witness:
  "never_served 7 initial_v2_state
   \<and> (\<exists>st'. run_v2 neighbours_only initial_v2_state = Inr st'
         \<and> map b_ueID (ue_buffers st') = [1, 7] \<and> never_served 7 st')"
proof -
  have n: "never_served 7 initial_v2_state"
    by (simp add: never_served_def no_history_def initial_v2_state_def initial_burst_state_def
        TOTAL_UES_def)
  have h: "\<forall>d \<in> set neighbours_only. \<forall>mt \<in> set (meas_info_lst (fst d)). \<not> serving_for 7 mt"
    by (simp add: neighbours_only_def msg_of_def serving_item_def neigh_item_def serving_for_def
        parseServingMsg_def)
  have "\<exists>st'. run_v2 neighbours_only initial_v2_state = Inr st' \<and> map b_ueID (ue_buffers st') = [1, 7]"
    by (simp add: neighbours_only_def msg_of_def serving_item_def neigh_item_def
        log_kpm_measurements_v2_def initial_v2_state_def initial_burst_state_def TOTAL_UES_def
        collect_serving_v2_def collect_neigh_v2_def parseServingMsg_def parseNeighMsg_def
        UINT16_MAX_def serving_to_buffer_def get_or_create_ue_buffer_def zero_ue_buffer_def
        add_serving_sample_def add_neighbor_sample_def WINDOW_SIZE_def
        assign_sequence_timestamp_def check_and_send_ue_data_def sort_neighbors_def
        sort_inner.simps sort_outer.simps MIN_NEIGHBORS_REQUIRED_def Let_def)
  then obtain st' where r: "run_v2 neighbours_only initial_v2_state = Inr st'"
    "map b_ueID (ue_buffers st') = [1, 7]" by auto
  from C10 [OF n h r(1)] have "never_served 7 st'" by simp
  with n r show ?thesis by auto
qed

section \<open>Properties of the averages of the time-bounded variant\<close>

lemmas ma_eval = log_kpm_measurements_def msg_of_def serving_item_def neigh_item_def
     initial_ma_state_def collect_serving_def collect_neigh_def parseServingMsg_def parseNeighMsg_def
     UINT16_MAX_def new_measurement_def get_cell_position_def cell_positions_def
     process_measurements_to_adaptive_windows_def point_of_measurement_def sorted_neighbors_def
     qsort_def compare_neighbors_by_sinr_def top_sinr_def add_to_adaptive_window_def
     create_ue_window_def MAX_UE_COUNT_def add_point_def BUFFER_CAPACITY_def Let_def
     send_window_batch_to_python_def reset_window_def sum_double_def sum_uint64_def
     nb0_def nb1_def nb2_def

text \<open>
  Claim C3, as stated, fails. In a window of two samples the neighbours 5 and 6 have the
  metrics (10, 2) and then (2, 10): each link's mean is 6, so the ranked per-link means
  are (6, 6, 0.0), while the line logged carries (10, 2, 0.0).
\<close>

theorem C3_counterexample:
  "map_sum id (map avg_neighbor_sinr \<circ> log_lines)
       (ingest_all (map point_of_measurement crossing_samples) initial_ma_state)
     = Inr [(Fin 10, Fin 2, Fin 0)]
   \<and> map_sum id (map avg_neighbor_sinr \<circ> log_lines)
       (case log_kpm_measurements crossing_first 0 initial_ma_state of
          Inl f \<Rightarrow> Inl f
        | Inr s \<Rightarrow> log_kpm_measurements crossing_second 5000000 s)
     = Inr [(Fin 10, Fin 2, Fin 0)]
   \<and> spec_per_link_ranked crossing_samples = (Fin 6, Fin 6, Fin 0)"
  by (simp add: ma_eval crossing_first_def crossing_second_def crossing_samples_def
      spec_per_link_ranked_def spec_links_def spec_link_mean_def mean_double_def
      compare_double_desc_def pad3_def)

lemma not_dless_trans:
  "\<not> isnan a \<Longrightarrow> \<not> isnan b \<Longrightarrow> \<not> isnan c \<Longrightarrow> \<not> dless a b \<Longrightarrow> \<not> dless b c \<Longrightarrow> \<not> dless a c"
  by (cases a; cases b; cases c) auto

lemma set_insert_by: "set (insert_by cmp x xs) = insert x (set xs)"
  by (induction xs) auto

lemma sorted_insert_by:
  assumes "sorted_wrt sinr_not_below xs"
    and "\<forall>n \<in> set (x # xs). \<not> isnan (neighSINR n)"
  shows "sorted_wrt sinr_not_below (insert_by compare_neighbors_by_sinr x xs)"
  using assms
proof (induction xs)
  case Nil
  then show ?case by simp
next
  case (Cons y ys)
  show ?case
  proof (cases "compare_neighbors_by_sinr x y \<le> 0")
    case True
    then have xy: "\<not> dless (neighSINR x) (neighSINR y)"
      by (auto simp: compare_neighbors_by_sinr_def dless_asym split: if_splits)
    have "\<forall>z \<in> set ys. \<not> dless (neighSINR x) (neighSINR z)"
      using Cons.prems xy not_dless_trans [of "neighSINR x" "neighSINR y"]
      by (auto simp: sinr_not_below_def)
    then show ?thesis using True xy Cons.prems(1) by (simp add: sinr_not_below_def)
  next
    case False
    then have yx: "dless (neighSINR x) (neighSINR y)"
      by (auto simp: compare_neighbors_by_sinr_def split: if_splits)
    then have "sinr_not_below y x" by (simp add: sinr_not_below_def dless_asym)
    moreover have "sorted_wrt sinr_not_below (insert_by compare_neighbors_by_sinr x ys)"
      using Cons by simp
    ultimately show ?thesis
      using False Cons.prems(1) by (auto simp: set_insert_by)
  qed
qed

lemma sorted_qsort:
  "\<forall>n \<in> set xs. \<not> isnan (neighSINR n) \<Longrightarrow>
   sorted_wrt sinr_not_below (qsort compare_neighbors_by_sinr xs)"
proof (induction xs)
  case Nil
  then show ?case by (simp add: qsort_def)
next
  case (Cons x xs)
  have "set (qsort compare_neighbors_by_sinr xs) = set xs"
    using mset_qsort [of compare_neighbors_by_sinr xs] mset_eq_setD by blast
  then have "sorted_wrt sinr_not_below
      (insert_by compare_neighbors_by_sinr x (qsort compare_neighbors_by_sinr xs))"
    using Cons by (intro sorted_insert_by) auto
  then show ?case by (simp add: qsort_def)
qed

lemma sorted_sorted_neighbors:
  assumes "\<forall>n \<in> set (neighbors m). \<not> isnan (neighSINR n)"
  shows "sorted_wrt sinr_not_below (sorted_neighbors m)"
proof (cases "num_neighbors m > 1")
  case True
  then show ?thesis using assms by (simp add: sorted_neighbors_def sorted_qsort)
next
  case False
  then have "neighbors m = [] \<or> (\<exists>x. neighbors m = [x])"
    by (cases "neighbors m") auto
  then show ?thesis using False by (auto simp: sorted_neighbors_def)
qed

text \<open>
  Claim C3, amended. Each sample's neighbours are ranked within the sample, by metric,
  descending, and the sample keeps the metrics of the first three, without their link
  ids (0.0 in a slot the sample has no neighbour for). When a window closes on its time
  threshold, slot \<open>j\<close> of the line is the arithmetic mean, over the samples of the window,
  of the samples' \<open>j\<close>-th ranked metric.
\<close>

theorem C3_amended:
  assumes "window_free st u"
    and "ms = m0 # rest @ [mq]"
    and "\<forall>m \<in> set ms. m_ueID m = u \<and> m_servingCellID m = c"
    and "\<forall>m \<in> set rest. \<not> 5000 \<le> m_timestamp m - m_timestamp m0"
    and "5000 \<le> m_timestamp mq - m_timestamp m0"
    and "length ms \<le> 200"
  shows "(\<exists>s line. ingest_all (map point_of_measurement ms) st = Inr s
            \<and> log_lines s = log_lines st @ [line]
            \<and> avg_neighbor_sinr line =
                 (mean_double (map (ranked_sinr 0) ms), mean_double (map (ranked_sinr 1) ms),
                  mean_double (map (ranked_sinr 2) ms)))
       \<and> (\<forall>m. mset (sorted_neighbors m) = mset (neighbors m)
              \<and> ((\<forall>n \<in> set (neighbors m). \<not> isnan (neighSINR n))
                   \<longrightarrow> sorted_wrt sinr_not_below (sorted_neighbors m)))"
proof (intro conjI allI impI)
  let ?p = point_of_measurement
  have pt: "timestamp (?p m) = m_timestamp m" "ueID (?p m) = m_ueID m"
    "servingCellID (?p m) = m_servingCellID m" for m
    by (simp_all add: point_of_measurement_def Let_def)
  have "\<exists>s w w'. ingest_all (?p m0 # map ?p rest @ [?p mq]) st = Inr s \<and> window_of s u = Some w
           \<and> buffer w = [] \<and> ue_id w = u
           \<and> buffer w' = ?p m0 # map ?p rest @ [?p mq] \<and> ue_id w' = u \<and> current_serving_cell w' = c
           \<and> log_lines s = log_lines st @ send_window_batch_to_python w'"
    using assms by (intro window_run_close) (auto simp: pt)
  then obtain s w' where r: "ingest_all (map ?p ms) st = Inr s" "buffer w' = map ?p ms"
    "log_lines s = log_lines st @ send_window_batch_to_python w'"
    using assms(2) by auto
  have ne: "buffer w' \<noteq> []" using r(2) assms(2) by simp
  have nb: "nb0 \<circ> ?p = ranked_sinr 0" "nb1 \<circ> ?p = ranked_sinr 1" "nb2 \<circ> ?p = ranked_sinr 2"
    by (auto simp: nb0_def nb1_def nb2_def point_of_measurement_def Let_def ranked_sinr_def)
  show "\<exists>s line. ingest_all (map ?p ms) st = Inr s
            \<and> log_lines s = log_lines st @ [line]
            \<and> avg_neighbor_sinr line =
                 (mean_double (map (ranked_sinr 0) ms), mean_double (map (ranked_sinr 1) ms),
                  mean_double (map (ranked_sinr 2) ms))"
    using r by (simp add: send_nonempty [OF ne] nb mean_double_def)
next
  fix m :: sinr_measurement_t
  show "mset (sorted_neighbors m) = mset (neighbors m)" by (rule mset_sorted_neighbors)
next
  fix m :: sinr_measurement_t
  assume "\<forall>n \<in> set (neighbors m). \<not> isnan (neighSINR n)"
  then show "sorted_wrt sinr_not_below (sorted_neighbors m)" by (rule sorted_sorted_neighbors)
qed

text \<open>An instance of the amended claim C3.\<close>

theorem C3_amended_witness:
  "\<exists>s line. ingest_all (map point_of_measurement crossing_samples) initial_ma_state = Inr s
      \<and> log_lines s = [line] \<and> avg_neighbor_sinr line = (Fin 10, Fin 2, Fin 0)"
proof -
  have f: "window_free initial_ma_state 1"
    by (simp add: window_free_def window_of_def initial_ma_state_def MAX_UE_COUNT_def)
  have e: "crossing_samples = hd crossing_samples # [] @ [last crossing_samples]"
    by (simp add: crossing_samples_def)
  have a: "\<forall>m \<in> set crossing_samples. m_ueID m = 1 \<and> m_servingCellID m = 2"
    by (simp add: crossing_samples_def)
  have t: "5000 \<le> m_timestamp (last crossing_samples) - m_timestamp (hd crossing_samples)"
    by (simp add: crossing_samples_def)
  have l: "length crossing_samples \<le> 200" by (simp add: crossing_samples_def)
  from C3_amended [OF f e a _ t l]
  obtain s line where r: "ingest_all (map point_of_measurement crossing_samples) initial_ma_state = Inr s"
    "log_lines s = log_lines initial_ma_state @ [line]"
    "avg_neighbor_sinr line =
       (mean_double (map (ranked_sinr 0) crossing_samples),
        mean_double (map (ranked_sinr 1) crossing_samples),
        mean_double (map (ranked_sinr 2) crossing_samples))"
    by auto
  have "avg_neighbor_sinr line = (Fin 10, Fin 2, Fin 0)"
    unfolding r(3)
    by (simp add: crossing_samples_def mean_double_def sum_double_def ranked_sinr_def top_sinr_def
        sorted_neighbors_def qsort_def compare_neighbors_by_sinr_def)
  moreover have "log_lines s = [line]" using r(2) by (simp add: initial_ma_state_def)
  ultimately show ?thesis using r(1) by blast
qed

end
